theory Spec2Isabelle
  imports Complex_Main
begin

section \<open>Python values and exceptions\<close>

text \<open>
  The handlers of \<^verbatim>\<open>backend/app.py\<close> read the provider's responses as nested Python
  dictionaries and lists, by subscript, \<^verbatim>\<open>len\<close> and iteration. The values are modelled
  as a datatype; a dictionary is an association list in insertion order, without two
  equal keys. A string is a list of characters (code points below 256). A value the
  handlers never look into (a timestamp inside the description of an instance) can
  stand as any value of the datatype.

  A float is an IEEE binary64 value, given by the rational number it is exactly, with
  the signed zero, the two infinities and NaN beside it. \<open>Finite 0\<close> is \<^verbatim>\<open>0.0\<close>,
  \<open>NegZero\<close> is \<^verbatim>\<open>-0.0\<close>.
\<close>

datatype pyfloat = Finite rat | NegZero | PosInf | NegInf | NaN

datatype pval =
    PNone
  | PBool bool
  | PInt int
  | PFloat pyfloat
  | PStr string
  | PList "pval list"
  | PDict "(pval \<times> pval) list"

text \<open>
  The exceptions of the model are instances of Python's \<^verbatim>\<open>Exception\<close>: the ones the
  interpreter raises for the operations the handlers use, and \<open>SdkError\<close> for any
  exception the provider SDK raises (authentication, network, service errors), with
  its message.
\<close>

datatype exn =
    KeyError pval
  | IndexError
  | TypeError
  | ValueError pval
  | OverflowError
  | SdkError string

subsection \<open>Keys, subscripts, length, iteration\<close>

text \<open>
  Python compares dictionary keys with \<^verbatim>\<open>==\<close>: \<^verbatim>\<open>True\<close>, \<^verbatim>\<open>1\<close> and \<^verbatim>\<open>1.0\<close> are one
  key, \<^verbatim>\<open>0.0\<close> and \<^verbatim>\<open>-0.0\<close> as well, and a NaN equals nothing (two NaN objects are two
  keys). Lists and dictionaries are unhashable.
\<close>

fun hashable :: "pval \<Rightarrow> bool" where
  "hashable (PList _) = False"
| "hashable (PDict _) = False"
| "hashable _ = True"

datatype keyval = KNone | KStr string | KNum rat | KPosInf | KNegInf | KNaN | KUnhashable

fun key_of :: "pval \<Rightarrow> keyval" where
  "key_of PNone = KNone"
| "key_of (PBool b) = KNum (if b then 1 else 0)"
| "key_of (PInt i) = KNum (of_int i)"
| "key_of (PFloat (Finite q)) = KNum q"
| "key_of (PFloat NegZero) = KNum 0"
| "key_of (PFloat PosInf) = KPosInf"
| "key_of (PFloat NegInf) = KNegInf"
| "key_of (PFloat NaN) = KNaN"
| "key_of (PStr s) = KStr s"
| "key_of (PList _) = KUnhashable"
| "key_of (PDict _) = KUnhashable"

definition key_eq :: "pval \<Rightarrow> pval \<Rightarrow> bool" where
  "key_eq a b = (key_of a = key_of b \<and> key_of a \<noteq> KNaN \<and> key_of a \<noteq> KUnhashable)"

fun dict_lookup :: "(pval \<times> pval) list \<Rightarrow> pval \<Rightarrow> pval option" where
  "dict_lookup [] k = None"
| "dict_lookup ((k', v) # kvs) k = (if key_eq k' k then Some v else dict_lookup kvs k)"

text \<open>\<^verbatim>\<open>d[k] = v\<close>: an equal key keeps its place and its first key object, a new key goes last.\<close>

fun dict_update :: "(pval \<times> pval) list \<Rightarrow> pval \<Rightarrow> pval \<Rightarrow> (pval \<times> pval) list" where
  "dict_update [] k v = [(k, v)]"
| "dict_update ((k', v') # kvs) k v =
     (if key_eq k' k then (k', v) # kvs else (k', v') # dict_update kvs k v)"

definition dict_setitem :: "(pval \<times> pval) list \<Rightarrow> pval \<Rightarrow> pval \<Rightarrow> exn + (pval \<times> pval) list" where
  "dict_setitem d k v = (if hashable k then Inr (dict_update d k v) else Inl TypeError)"

text \<open>An index into a sequence: an \<^verbatim>\<open>int\<close> or a \<^verbatim>\<open>bool\<close>; a negative one counts from the end.\<close>

fun as_index :: "pval \<Rightarrow> int option" where
  "as_index (PInt i) = Some i"
| "as_index (PBool b) = Some (if b then 1 else 0)"
| "as_index _ = None"

definition seq_getitem :: "'a list \<Rightarrow> int \<Rightarrow> exn + 'a" where
  "seq_getitem xs i =
     (if 0 \<le> i \<and> i < int (length xs) then Inr (xs ! nat i)
      else if i < 0 \<and> - int (length xs) \<le> i then Inr (xs ! nat (int (length xs) + i))
      else Inl IndexError)"

text \<open>\<^verbatim>\<open>v[k]\<close>.\<close>

fun py_getitem :: "pval \<Rightarrow> pval \<Rightarrow> exn + pval" where
  "py_getitem (PDict kvs) k =
     (if hashable k
      then (case dict_lookup kvs k of Some v \<Rightarrow> Inr v | None \<Rightarrow> Inl (KeyError k))
      else Inl TypeError)"
| "py_getitem (PList xs) k =
     (case as_index k of Some i \<Rightarrow> seq_getitem xs i | None \<Rightarrow> Inl TypeError)"
| "py_getitem (PStr s) k =
     (case as_index k of
        Some i \<Rightarrow> (case seq_getitem s i of Inl e \<Rightarrow> Inl e | Inr c \<Rightarrow> Inr (PStr [c]))
      | None \<Rightarrow> Inl TypeError)"
| "py_getitem _ k = Inl TypeError"

text \<open>\<^verbatim>\<open>len(v)\<close>.\<close>

fun py_len :: "pval \<Rightarrow> exn + int" where
  "py_len (PList xs) = Inr (int (length xs))"
| "py_len (PDict kvs) = Inr (int (length kvs))"
| "py_len (PStr s) = Inr (int (length s))"
| "py_len _ = Inl TypeError"

text \<open>\<^verbatim>\<open>for x in v\<close>: the elements of a list, the keys of a dictionary, the characters of a string.\<close>

fun py_iter :: "pval \<Rightarrow> exn + pval list" where
  "py_iter (PList xs) = Inr xs"
| "py_iter (PDict kvs) = Inr (map fst kvs)"
| "py_iter (PStr s) = Inr (map (\<lambda>c. PStr [c]) s)"
| "py_iter _ = Inl TypeError"

section \<open>Floats: \<^verbatim>\<open>float(amount)\<close> and \<^verbatim>\<open>round(x, 2)\<close>\<close>

text \<open>
  Python's \<^verbatim>\<open>float\<close> of a string and its two-argument \<^verbatim>\<open>round\<close> are correctly rounded:
  \<^verbatim>\<open>float\<close> gives the binary64 value nearest to the decimal numeral, \<^verbatim>\<open>round(x, 2)\<close> the
  binary64 value nearest to the two-digit decimal nearest to the exact value of \<open>x\<close>;
  both break ties to even. They are computed here on rational numbers.
\<close>

text \<open>The number of binary digits of a positive integer.\<close>

function bitlen :: "int \<Rightarrow> nat" where
  "bitlen n = (if n \<le> 0 then 0 else Suc (bitlen (n div 2)))"
  by pat_completeness auto
termination
  by (relation "measure nat") auto

declare bitlen.simps [simp del]

definition pow2 :: "int \<Rightarrow> rat" where
  "pow2 k = (if 0 \<le> k then 2 ^ nat k else 1 / 2 ^ nat (- k))"

text \<open>\<open>ilog2 q\<close> is the integer \<open>k\<close> with \<open>2\<^sup>k \<le> q < 2\<^sup>k\<^sup>+\<^sup>1\<close>, for \<open>0 < q\<close>.\<close>

definition ilog2 :: "rat \<Rightarrow> int" where
  "ilog2 q = (if 1 \<le> q then int (bitlen \<lfloor>q\<rfloor>) - 1
              else - int (bitlen (\<lceil>1 / q\<rceil> - 1)))"

definition round_half_even :: "rat \<Rightarrow> int" where
  "round_half_even x =
     (let f = \<lfloor>x\<rfloor>; d = x - of_int f
      in if d < 1 / 2 then f else if 1 / 2 < d then f + 1 else if even f then f else f + 1)"

text \<open>
  The binary64 value nearest to \<open>q > 0\<close>: a 53-bit significand \<open>m\<close> at the exponent
  \<open>e\<close> (not below the subnormal exponent \<open>-1074\<close>); the value \<open>m \<cdot> 2\<^sup>e\<close> overflows to
  infinity when it reaches \<open>2\<^sup>1\<^sup>0\<^sup>2\<^sup>4\<close>.
\<close>

definition rn_pos :: "rat \<Rightarrow> pyfloat" where
  "rn_pos q =
     (let e = max (ilog2 q - 52) (- 1074)
      in if 971 < e then PosInf
         else (let m = round_half_even (q / pow2 e)
               in if e = 971 \<and> 2 ^ 53 \<le> m then PosInf else Finite (of_int m * pow2 e)))"

definition fneg :: "pyfloat \<Rightarrow> pyfloat" where
  "fneg x = (case x of
      Finite v \<Rightarrow> (if v = 0 then NegZero else Finite (- v))
    | NegZero \<Rightarrow> Finite 0
    | PosInf \<Rightarrow> NegInf
    | NegInf \<Rightarrow> PosInf
    | NaN \<Rightarrow> NaN)"

definition rn :: "rat \<Rightarrow> pyfloat" where
  "rn q = (if q = 0 then Finite 0 else if 0 < q then rn_pos q else fneg (rn_pos (- q)))"

subsection \<open>The numeral syntax of \<^verbatim>\<open>float\<close>\<close>

definition is_digit :: "char \<Rightarrow> bool" where
  "is_digit c = (c \<in> set ''0123456789'')"

definition digit_val :: "char \<Rightarrow> int" where
  "digit_val c = of_char c - 48"

definition digits_val :: "string \<Rightarrow> int" where
  "digits_val ds = foldl (\<lambda>n c. 10 * n + digit_val c) 0 ds"

text \<open>
  The white space \<^verbatim>\<open>float\<close> strips at both ends: the six ASCII white-space characters
  (tab, line feed, vertical tab, form feed, carriage return, space) and, of the code
  points from 128 to 255, the two that are white space (U+0085 and U+00A0), which
  \<^verbatim>\<open>float\<close> turns into spaces first. The separators U+001C to U+001F are not stripped.
\<close>

definition is_space :: "char \<Rightarrow> bool" where
  "is_space c = (of_char c \<in> set [9, 10, 11, 12, 13, 32, 133, 160 :: nat])"

definition strip :: "string \<Rightarrow> string" where
  "strip s = rev (dropWhile is_space (rev (dropWhile is_space s)))"

definition lower :: "char \<Rightarrow> char" where
  "lower c = (let n = (of_char c :: nat) in if 65 \<le> n \<and> n \<le> 90 then char_of (n + 32) else c)"

text \<open>An underscore is allowed between two digits only; \<open>prev\<close> is the character before.\<close>

fun underscores_ok :: "char \<Rightarrow> string \<Rightarrow> bool" where
  "underscores_ok prev [] = (prev \<noteq> CHR ''_'')"
| "underscores_ok prev (c # cs) =
     ((if c = CHR ''_'' then is_digit prev
       else if prev = CHR ''_'' then is_digit c else True)
      \<and> underscores_ok c cs)"

text \<open>The exponent part: empty, or \<^verbatim>\<open>e\<close> or \<^verbatim>\<open>E\<close>, an optional sign and at least one digit.\<close>

definition parse_exponent :: "string \<Rightarrow> int option" where
  "parse_exponent s =
     (case s of
        [] \<Rightarrow> Some 0
      | c # t \<Rightarrow>
          if c = CHR ''e'' \<or> c = CHR ''E'' then
            (let (neg, ds) = (case t of
                    [] \<Rightarrow> (False, [])
                  | d # u \<Rightarrow> if d = CHR ''-'' then (True, u)
                             else if d = CHR ''+'' then (False, u) else (False, t))
             in if ds \<noteq> [] \<and> list_all is_digit ds
                then Some (if neg then - digits_val ds else digits_val ds)
                else None)
          else None)"

text \<open>
  An unsigned decimal numeral: digits, an optional point and digits, with a digit on
  one side of the point at least, then the exponent part. The result is the pair
  \<open>(m, e)\<close> of the value \<open>m \<cdot> 10\<^sup>e\<close>.
\<close>

definition parse_decimal :: "string \<Rightarrow> (int \<times> int) option" where
  "parse_decimal s =
     (let ip = takeWhile is_digit s; r1 = dropWhile is_digit s;
          (fp, r2) = (case r1 of
                [] \<Rightarrow> ([], [])
              | c # t \<Rightarrow> if c = CHR ''.'' then (takeWhile is_digit t, dropWhile is_digit t)
                         else ([], r1))
      in if ip = [] \<and> fp = [] then None
         else (case parse_exponent r2 of
                 None \<Rightarrow> None
               | Some ex \<Rightarrow> Some (digits_val (ip @ fp), ex - int (length fp))))"

definition pow10 :: "int \<Rightarrow> rat" where
  "pow10 k = (if 0 \<le> k then 10 ^ nat k else 1 / 10 ^ nat (- k))"

text \<open>The unsigned part of a float literal: \<^verbatim>\<open>inf\<close>, \<^verbatim>\<open>infinity\<close>, \<^verbatim>\<open>nan\<close> in any case, or a numeral.\<close>

definition parse_unsigned :: "string \<Rightarrow> pyfloat option" where
  "parse_unsigned s =
     (let l = map lower s
      in if l = ''inf'' \<or> l = ''infinity'' then Some PosInf
         else if l = ''nan'' then Some NaN
         else (case parse_decimal s of
                 None \<Rightarrow> None
               | Some (m, e) \<Rightarrow> Some (rn (of_int m * pow10 e))))"

text \<open>
  \<^verbatim>\<open>float(s)\<close> of a string: strip the white space, check and drop the underscores, read
  an optional sign and the unsigned part; the whole string has to be consumed.
\<close>

definition float_of_string :: "string \<Rightarrow> pyfloat option" where
  "float_of_string s0 =
     (let s = strip s0
      in if \<not> underscores_ok (CHR 0x00) s then None
         else (let t = filter (\<lambda>c. c \<noteq> CHR ''_'') s
               in case t of
                    [] \<Rightarrow> None
                  | c # u \<Rightarrow>
                      if c = CHR ''-'' then map_option fneg (parse_unsigned u)
                      else if c = CHR ''+'' then parse_unsigned u
                      else parse_unsigned t))"

text \<open>\<^verbatim>\<open>float(v)\<close>: a string is parsed, a number converted, anything else is a type error.\<close>

fun py_float :: "pval \<Rightarrow> exn + pyfloat" where
  "py_float (PStr s) = (case float_of_string s of None \<Rightarrow> Inl (ValueError (PStr s)) | Some x \<Rightarrow> Inr x)"
| "py_float (PFloat x) = Inr x"
| "py_float (PInt i) =
     (case rn (of_int i) of PosInf \<Rightarrow> Inl OverflowError | NegInf \<Rightarrow> Inl OverflowError | x \<Rightarrow> Inr x)"
| "py_float (PBool b) = Inr (Finite (if b then 1 else 0))"
| "py_float _ = Inl TypeError"

text \<open>\<^verbatim>\<open>round(x, 2)\<close>: zeros, infinities and NaN are returned as they are.\<close>

definition py_round2 :: "pyfloat \<Rightarrow> pyfloat" where
  "py_round2 x = (case x of
      Finite v \<Rightarrow>
        (if v = 0 then x
         else if 0 < v then rn (of_int (round_half_even (v * 100)) / 100)
         else fneg (rn (of_int (round_half_even (- v * 100)) / 100)))
    | _ \<Rightarrow> x)"

section \<open>Dates: \<^verbatim>\<open>date - timedelta(days=30)\<close> and \<^verbatim>\<open>strftime("%Y-%m-%d")\<close>\<close>

text \<open>
  A date is given by its proleptic Gregorian ordinal (\<^verbatim>\<open>date.toordinal()\<close>: day 1 is
  0001-01-01, the last day 9999-12-31 is \<open>MAXORDINAL\<close>). Subtracting a \<^verbatim>\<open>timedelta\<close>
  subtracts the days and raises \<^verbatim>\<open>OverflowError\<close> out of that range; printing goes
  through year, month and day as \<^verbatim>\<open>datetime\<close> computes them from the ordinal.
\<close>

datatype date = Date int

definition MAXORDINAL :: int where
  "MAXORDINAL = 3652059"

definition date_sub_days :: "date \<Rightarrow> int \<Rightarrow> exn + date" where
  "date_sub_days d n =
     (case d of Date o1 \<Rightarrow>
        (let o2 = o1 - n in if 0 < o2 \<and> o2 \<le> MAXORDINAL then Inr (Date o2) else Inl OverflowError))"

definition DAYS_IN_MONTH :: "int list" where
  "DAYS_IN_MONTH = [-1, 31, 28, 31, 30, 31, 30, 31, 31, 30, 31, 30, 31]"

definition DAYS_BEFORE_MONTH :: "int list" where
  "DAYS_BEFORE_MONTH = [-1, 0, 31, 59, 90, 120, 151, 181, 212, 243, 273, 304, 334]"

text \<open>\<^verbatim>\<open>_ord2ymd\<close> of \<^verbatim>\<open>datetime\<close>: year, month and day of an ordinal.\<close>

definition ord2ymd :: "int \<Rightarrow> int \<times> int \<times> int" where
  "ord2ymd n0 =
     (let n = n0 - 1;
          n400 = n div 146097; n = n mod 146097;
          y = n400 * 400 + 1;
          n100 = n div 36524; n = n mod 36524;
          n4 = n div 1461; n = n mod 1461;
          n1 = n div 365; n = n mod 365;
          y = y + n100 * 100 + n4 * 4 + n1
      in if n1 = 4 \<or> n100 = 4 then (y - 1, 12, 31)
         else
           (let leapyear = (n1 = 3 \<and> (n4 \<noteq> 24 \<or> n100 = 3));
                m = (n + 50) div 32;
                preceding = DAYS_BEFORE_MONTH ! nat m + (if 2 < m \<and> leapyear then 1 else 0)
            in if n < preceding
               then (let m' = m - 1;
                         preceding' = preceding
                           - (DAYS_IN_MONTH ! nat m' + (if m' = 2 \<and> leapyear then 1 else 0))
                     in (y, m', n - preceding' + 1))
               else (y, m, n - preceding + 1)))"

definition digit_char :: "nat \<Rightarrow> char" where
  "digit_char n = char_of (48 + n)"

fun dec :: "nat \<Rightarrow> string" where
  "dec n = (if n < 10 then [digit_char n] else dec (n div 10) @ [digit_char (n mod 10)])"

declare dec.simps [simp del]

definition zpad :: "nat \<Rightarrow> int \<Rightarrow> string" where
  "zpad w n = (let s = dec (nat n) in replicate (w - length s) (CHR ''0'') @ s)"

text \<open>
  \<^verbatim>\<open>d.strftime("%Y-%m-%d")\<close>: the year, the month and the day in decimal, padded with
  zeros to four, two and two digits (for a year below 1000 the padding of the year
  depends on the platform; the clock gives no such year).
\<close>

definition strftime_ymd :: "date \<Rightarrow> string" where
  "strftime_ymd d =
     (case d of Date n \<Rightarrow>
        (case ord2ymd n of (y, m, dd) \<Rightarrow> zpad 4 y @ ''-'' @ zpad 2 m @ ''-'' @ zpad 2 dd))"

section \<open>The provider SDK and the calls made to it\<close>

text \<open>
  \<^verbatim>\<open>class AWSCreds(BaseModel)\<close>: the credentials of one request.
\<close>

record AWSCreds =
  access_key :: string
  secret_key :: string
  region :: string

datatype session = Session string string string

datatype client = Client session string

text \<open>
  Every use of the SDK is recorded: the handlers run on a log of the calls made so far
  and return it extended. A computation either raises or returns.
\<close>

datatype call =
    NewSession string string string
  | NewClient string
  | DescribeInstances
  | ListBuckets
  | GetCostAndUsage pval

type_synonym 'a io = "call list \<Rightarrow> (exn + 'a) \<times> call list"

definition io_return :: "'a \<Rightarrow> 'a io" where
  "io_return x = (\<lambda>log. (Inr x, log))"

definition io_lift :: "exn + 'a \<Rightarrow> 'a io" where
  "io_lift r = (\<lambda>log. (r, log))"

definition io_call :: "call \<Rightarrow> exn + 'a \<Rightarrow> 'a io" where
  "io_call c r = (\<lambda>log. (r, log @ [c]))"

definition io_bind :: "'a io \<Rightarrow> ('a \<Rightarrow> 'b io) \<Rightarrow> 'b io" where
  "io_bind m f = (\<lambda>log. case m log of (Inl e, log') \<Rightarrow> (Inl e, log') | (Inr x, log') \<Rightarrow> f x log')"

text \<open>
  The SDK as the handlers see it: what constructing a session or a client raises (if
  anything), and what each of the three API calls returns or raises.
\<close>

record boto3 =
  session_error :: "string \<Rightarrow> string \<Rightarrow> string \<Rightarrow> exn option"
  client_error :: "session \<Rightarrow> string \<Rightarrow> exn option"
  describe_instances :: "client \<Rightarrow> exn + pval"
  list_buckets :: "client \<Rightarrow> exn + pval"
  get_cost_and_usage :: "client \<Rightarrow> pval \<Rightarrow> exn + pval"

definition new_session :: "boto3 \<Rightarrow> string \<Rightarrow> string \<Rightarrow> string \<Rightarrow> session io" where
  "new_session b ak sk rg =
     io_call (NewSession ak sk rg)
       (case session_error b ak sk rg of Some e \<Rightarrow> Inl e | None \<Rightarrow> Inr (Session ak sk rg))"

definition new_client :: "boto3 \<Rightarrow> session \<Rightarrow> string \<Rightarrow> client io" where
  "new_client b s name =
     io_call (NewClient name)
       (case client_error b s name of Some e \<Rightarrow> Inl e | None \<Rightarrow> Inr (Client s name))"

record clients =
  ec2 :: client
  s3 :: client
  ce :: client

text \<open>\<^verbatim>\<open>get_clients\<close>: one session, then the three clients in the order of the dictionary literal.\<close>

definition get_clients :: "boto3 \<Rightarrow> AWSCreds \<Rightarrow> clients io" where
  "get_clients b creds =
     io_bind (new_session b (access_key creds) (secret_key creds) (region creds)) (\<lambda>session.
     io_bind (new_client b session ''ec2'') (\<lambda>c1.
     io_bind (new_client b session ''s3'') (\<lambda>c2.
     io_bind (new_client b session ''ce'') (\<lambda>c3.
     io_return \<lparr>ec2 = c1, s3 = c2, ce = c3\<rparr>))))"

text \<open>
  A provider that accepts every credential and answers the three API calls with fixed
  outcomes, as a test double does.
\<close>

definition stub_boto3 :: "exn + pval \<Rightarrow> exn + pval \<Rightarrow> exn + pval \<Rightarrow> boto3" where
  "stub_boto3 di lb cu =
     \<lparr>session_error = (\<lambda>_ _ _. None), client_error = (\<lambda>_ _. None),
      describe_instances = (\<lambda>_. di), list_buckets = (\<lambda>_. lb),
      get_cost_and_usage = (\<lambda>_ _. cu)\<rparr>"

section \<open>The handlers\<close>

text \<open>
  \<^verbatim>\<open>raise HTTPException(status_code=400, detail=str(e))\<close>: the detail is the string of the
  caught exception, kept as \<open>Str e\<close>.
\<close>

datatype detail = Str exn

datatype http_exception = HTTPException nat detail

type_synonym 'a handler = "call list \<Rightarrow> (http_exception + 'a) \<times> call list"

text \<open>\<^verbatim>\<open>try: ... except Exception as e: raise HTTPException(status_code=400, detail=str(e))\<close>.\<close>

definition except_400 :: "'a io \<Rightarrow> 'a handler" where
  "except_400 m = (\<lambda>log. case m log of
      (Inl e, log') \<Rightarrow> (Inl (HTTPException 400 (Str e)), log')
    | (Inr x, log') \<Rightarrow> (Inr x, log'))"

subsection \<open>\<^verbatim>\<open>/resources\<close>\<close>

text \<open>\<^verbatim>\<open>sum(len(res["Instances"]) for res in ...)\<close>: the first reservation that fails raises.\<close>

fun sum_instances :: "pval list \<Rightarrow> int \<Rightarrow> exn + int" where
  "sum_instances [] acc = Inr acc"
| "sum_instances (res # rest) acc =
     (case py_getitem res (PStr ''Instances'') of
        Inl e \<Rightarrow> Inl e
      | Inr is \<Rightarrow> (case py_len is of Inl e \<Rightarrow> Inl e | Inr n \<Rightarrow> sum_instances rest (acc + n)))"

definition count_instances :: "pval \<Rightarrow> exn + int" where
  "count_instances instances =
     (case py_getitem instances (PStr ''Reservations'') of
        Inl e \<Rightarrow> Inl e
      | Inr rs \<Rightarrow> (case py_iter rs of Inl e \<Rightarrow> Inl e | Inr xs \<Rightarrow> sum_instances xs 0))"

definition count_buckets :: "pval \<Rightarrow> exn + int" where
  "count_buckets buckets =
     (case py_getitem buckets (PStr ''Buckets'') of Inl e \<Rightarrow> Inl e | Inr bs \<Rightarrow> py_len bs)"

text \<open>The \<^verbatim>\<open>try\<close> block of \<^verbatim>\<open>get_resources\<close>.\<close>

definition resources_body :: "boto3 \<Rightarrow> AWSCreds \<Rightarrow> pval io" where
  "resources_body b creds =
     io_bind (get_clients b creds) (\<lambda>cl.
     io_bind (io_call DescribeInstances (describe_instances b (ec2 cl))) (\<lambda>instances.
     io_bind (io_lift (count_instances instances)) (\<lambda>instance_count.
     io_bind (io_call ListBuckets (list_buckets b (s3 cl))) (\<lambda>buckets.
     io_bind (io_lift (count_buckets buckets)) (\<lambda>bucket_count.
     io_return (PDict [(PStr ''ec2_instances'', PInt instance_count),
                       (PStr ''s3_buckets'', PInt bucket_count)]))))))"

definition get_resources :: "boto3 \<Rightarrow> AWSCreds \<Rightarrow> pval handler" where
  "get_resources b creds = except_400 (resources_body b creds)"

subsection \<open>\<^verbatim>\<open>/cost\<close>\<close>

definition ebind :: "exn + 'a \<Rightarrow> ('a \<Rightarrow> exn + 'b) \<Rightarrow> exn + 'b" where
  "ebind r f = (case r of Inl e \<Rightarrow> Inl e | Inr x \<Rightarrow> f x)"

text \<open>The keyword arguments of \<^verbatim>\<open>ce.get_cost_and_usage\<close>.\<close>

definition cost_query :: "date \<Rightarrow> date \<Rightarrow> pval" where
  "cost_query start_date end_date =
     PDict [(PStr ''TimePeriod'',
               PDict [(PStr ''Start'', PStr (strftime_ymd start_date)),
                      (PStr ''End'', PStr (strftime_ymd end_date))]),
            (PStr ''Granularity'', PStr ''MONTHLY''),
            (PStr ''Metrics'', PList [PStr ''UnblendedCost'']),
            (PStr ''GroupBy'',
               PList [PDict [(PStr ''Type'', PStr ''DIMENSION''), (PStr ''Key'', PStr ''SERVICE'')]])]"

text \<open>\<^verbatim>\<open>group["Keys"][0]\<close> and \<^verbatim>\<open>group["Metrics"]["UnblendedCost"]["Amount"]\<close>.\<close>

definition group_service :: "pval \<Rightarrow> exn + pval" where
  "group_service grp = ebind (py_getitem grp (PStr ''Keys'')) (\<lambda>ks. py_getitem ks (PInt 0))"

definition group_amount :: "pval \<Rightarrow> exn + pval" where
  "group_amount grp =
     ebind (py_getitem grp (PStr ''Metrics'')) (\<lambda>ms.
     ebind (py_getitem ms (PStr ''UnblendedCost'')) (\<lambda>uc.
     py_getitem uc (PStr ''Amount'')))"

text \<open>
  The body of the \<^verbatim>\<open>for\<close> loop, one group: the right-hand side
  \<^verbatim>\<open>round(float(amount), 2)\<close> is evaluated before the store into \<^verbatim>\<open>costs\<close>.
\<close>

definition cost_step :: "(pval \<times> pval) list \<Rightarrow> pval \<Rightarrow> exn + (pval \<times> pval) list" where
  "cost_step costs grp =
     ebind (group_service grp) (\<lambda>service.
     ebind (group_amount grp) (\<lambda>amount.
     ebind (py_float amount) (\<lambda>x.
     dict_setitem costs service (PFloat (py_round2 x)))))"

fun cost_loop :: "pval list \<Rightarrow> (pval \<times> pval) list \<Rightarrow> exn + (pval \<times> pval) list" where
  "cost_loop [] costs = Inr costs"
| "cost_loop (grp # rest) costs =
     (case cost_step costs grp of Inl e \<Rightarrow> Inl e | Inr costs' \<Rightarrow> cost_loop rest costs')"

text \<open>\<^verbatim>\<open>response["ResultsByTime"][0]["Groups"]\<close>, iterated.\<close>

definition first_groups :: "pval \<Rightarrow> exn + pval list" where
  "first_groups response =
     ebind (py_getitem response (PStr ''ResultsByTime'')) (\<lambda>rbt.
     ebind (py_getitem rbt (PInt 0)) (\<lambda>bucket.
     ebind (py_getitem bucket (PStr ''Groups'')) py_iter))"

definition build_costs :: "pval \<Rightarrow> exn + pval" where
  "build_costs response =
     ebind (first_groups response) (\<lambda>groups.
     ebind (cost_loop groups []) (\<lambda>costs. Inr (PDict costs)))"

text \<open>
  The \<^verbatim>\<open>try\<close> block of \<^verbatim>\<open>get_cost\<close>; \<open>today\<close> is \<^verbatim>\<open>datetime.today().date()\<close>, read from
  the clock.
\<close>

definition cost_body :: "boto3 \<Rightarrow> date \<Rightarrow> AWSCreds \<Rightarrow> pval io" where
  "cost_body b today creds =
     io_bind (get_clients b creds) (\<lambda>cl.
     io_bind (io_lift (date_sub_days today 30)) (\<lambda>start.
     io_bind (io_call (GetCostAndUsage (cost_query start today))
                (get_cost_and_usage b (ce cl) (cost_query start today))) (\<lambda>response.
     io_lift (build_costs response))))"

definition get_cost :: "boto3 \<Rightarrow> date \<Rightarrow> AWSCreds \<Rightarrow> pval handler" where
  "get_cost b today creds = except_400 (cost_body b today creds)"

section \<open>The application: validation, routing, middleware\<close>

text \<open>
  The framework around the handlers, as far as \<^verbatim>\<open>app.py\<close> configures it: a request
  body is validated against \<^verbatim>\<open>AWSCreds\<close> before the handler runs, a returned value
  becomes the JSON body of a 200 response, a raised \<^verbatim>\<open>HTTPException\<close> becomes a response
  with its status code and \<^verbatim>\<open>{"detail": ...}\<close>. The module-level statement that registers
  the CORS middleware is part of no handler and is left out (in the source its
  parenthesis is not closed and \<^verbatim>\<open>CORSMiddleware\<close> is not imported).
\<close>

datatype http_method = GET | POST | OtherMethod string

record request =
  http_method :: http_method
  url_path :: string
  json_body :: "pval option"

datatype body = Json pval | Detail detail | ValidationError "string list" | ServerError

record response =
  status_code :: nat
  content_type :: string
  body :: body

datatype outcome = Response response | NoRoute

text \<open>
  The process-wide state: the counter \<^verbatim>\<open>REQUEST_COUNT\<close> and the number of observations
  of the histogram \<^verbatim>\<open>REQUEST_LATENCY\<close>, by endpoint label, and the log of SDK calls.
\<close>

record app_state =
  request_count :: "string \<Rightarrow> nat"
  latency_count :: "string \<Rightarrow> nat"
  calls :: "call list"

text \<open>
  What the handlers take from outside the module: the SDK, the clock, how the
  validation library treats a field value that is not a string (\<open>None\<close>: rejected),
  and \<^verbatim>\<open>generate_latest\<close> and \<^verbatim>\<open>CONTENT_TYPE_LATEST\<close> of the metrics library.
\<close>

record env =
  sdk :: boto3
  clock :: date
  coerce_str :: "pval \<Rightarrow> string option"
  generate_latest :: "(string \<Rightarrow> nat) \<Rightarrow> (string \<Rightarrow> nat) \<Rightarrow> string"
  CONTENT_TYPE_LATEST :: string

subsection \<open>\<^verbatim>\<open>AWSCreds\<close>: two required string fields, \<^verbatim>\<open>region\<close> with a default\<close>

definition str_field :: "(pval \<Rightarrow> string option) \<Rightarrow> pval \<Rightarrow> string option" where
  "str_field coerce v = (case v of PStr s \<Rightarrow> Some s | _ \<Rightarrow> coerce v)"

definition body_field :: "pval option \<Rightarrow> string \<Rightarrow> pval option" where
  "body_field b name = (case b of Some (PDict kvs) \<Rightarrow> dict_lookup kvs (PStr name) | _ \<Rightarrow> None)"

definition required_str :: "(pval \<Rightarrow> string option) \<Rightarrow> pval option \<Rightarrow> string \<Rightarrow> string option" where
  "required_str coerce b name =
     (case body_field b name of None \<Rightarrow> None | Some v \<Rightarrow> str_field coerce v)"

definition optional_str ::
  "(pval \<Rightarrow> string option) \<Rightarrow> pval option \<Rightarrow> string \<Rightarrow> string \<Rightarrow> string option" where
  "optional_str coerce b name dflt =
     (case body_field b name of None \<Rightarrow> Some dflt | Some v \<Rightarrow> str_field coerce v)"

text \<open>The validated credentials, or the names of the fields in error.\<close>

definition validate_creds :: "(pval \<Rightarrow> string option) \<Rightarrow> pval option \<Rightarrow> string list + AWSCreds" where
  "validate_creds coerce b =
     (case b of
        Some (PDict kvs) \<Rightarrow>
          (case (required_str coerce b ''access_key'', required_str coerce b ''secret_key'',
                 optional_str coerce b ''region'' ''us-east-1'') of
             (Some ak, Some sk, Some rg) \<Rightarrow>
               Inr \<lparr>access_key = ak, secret_key = sk, region = rg\<rparr>
           | (a, s, r) \<Rightarrow>
               Inl ((if a = None then [''access_key''] else [])
                  @ (if s = None then [''secret_key''] else [])
                  @ (if r = None then [''region''] else [])))
      | _ \<Rightarrow> Inl [''body''])"

subsection \<open>Responses\<close>

text \<open>
  The JSON encoder of the framework refuses infinities and NaN; the request then ends
  in a 500 response.
\<close>

fun json_ok :: "pval \<Rightarrow> bool" where
  "json_ok (PFloat (Finite _)) = True"
| "json_ok (PFloat NegZero) = True"
| "json_ok (PFloat _) = False"
| "json_ok (PList xs) = list_all json_ok xs"
| "json_ok (PDict kvs) = list_all (\<lambda>kv. json_ok (fst kv) \<and> json_ok (snd kv)) kvs"
| "json_ok _ = True"

definition json_response :: "pval \<Rightarrow> response" where
  "json_response v =
     (if json_ok v
      then \<lparr>status_code = 200, content_type = ''application/json'', body = Json v\<rparr>
      else \<lparr>status_code = 500, content_type = ''text/plain; charset=utf-8'', body = ServerError\<rparr>)"

definition error_response :: "http_exception \<Rightarrow> response" where
  "error_response ex =
     (case ex of HTTPException st d \<Rightarrow>
        \<lparr>status_code = st, content_type = ''application/json'', body = Detail d\<rparr>)"

definition validation_response :: "string list \<Rightarrow> response" where
  "validation_response errs =
     \<lparr>status_code = 422, content_type = ''application/json'', body = ValidationError errs\<rparr>"

subsection \<open>\<^verbatim>\<open>/health\<close> and \<^verbatim>\<open>/metrics\<close>\<close>

definition health :: pval where
  "health = PDict [(PStr ''status'', PStr ''ok'')]"

text \<open>
  \<^verbatim>\<open>return generate_latest(), 200, {"Content-Type": CONTENT_TYPE_LATEST}\<close>: the handler
  returns a tuple of three values.
\<close>

definition metrics :: "env \<Rightarrow> app_state \<Rightarrow> string \<times> int \<times> (string \<times> string) list" where
  "metrics ev st =
     (generate_latest ev (request_count st) (latency_count st), 200,
      [(''Content-Type'', CONTENT_TYPE_LATEST ev)])"

text \<open>A returned tuple is encoded like any other return value: as a JSON array.\<close>

definition encode_tuple :: "string \<times> int \<times> (string \<times> string) list \<Rightarrow> pval" where
  "encode_tuple t =
     (case t of (text, code, hdrs) \<Rightarrow>
        PList [PStr text, PInt code, PDict (map (\<lambda>kv. (PStr (fst kv), PStr (snd kv))) hdrs)])"

subsection \<open>Routing\<close>

definition run_handler :: "pval handler \<Rightarrow> app_state \<Rightarrow> outcome \<times> app_state" where
  "run_handler h st =
     (case h (calls st) of
        (Inl ex, log') \<Rightarrow> (Response (error_response ex), st\<lparr>calls := log'\<rparr>)
      | (Inr v, log') \<Rightarrow> (Response (json_response v), st\<lparr>calls := log'\<rparr>))"

definition with_creds :: "env \<Rightarrow> request \<Rightarrow> (AWSCreds \<Rightarrow> pval handler) \<Rightarrow> app_state \<Rightarrow> outcome \<times> app_state" where
  "with_creds ev req h st =
     (case validate_creds (coerce_str ev) (json_body req) of
        Inl errs \<Rightarrow> (Response (validation_response errs), st)
      | Inr creds \<Rightarrow> run_handler (h creds) st)"

text \<open>The four routes of the module; any other request is left to the framework.\<close>

definition dispatch :: "env \<Rightarrow> request \<Rightarrow> app_state \<Rightarrow> outcome \<times> app_state" where
  "dispatch ev req st =
     (if http_method req = GET \<and> url_path req = ''/health''
        then (Response (json_response health), st)
      else if http_method req = GET \<and> url_path req = ''/metrics''
        then (Response (json_response (encode_tuple (metrics ev st))), st)
      else if http_method req = POST \<and> url_path req = ''/resources''
        then with_creds ev req (get_resources (sdk ev)) st
      else if http_method req = POST \<and> url_path req = ''/cost''
        then with_creds ev req (get_cost (sdk ev) (clock ev)) st
      else (NoRoute, st))"

subsection \<open>\<^verbatim>\<open>metrics_middleware\<close>\<close>

definition inc :: "(string \<Rightarrow> nat) \<Rightarrow> string \<Rightarrow> (string \<Rightarrow> nat)" where
  "inc c label = c(label := Suc (c label))"

text \<open>
  The counter of the path is incremented on entry; the histogram takes one observation
  when the \<^verbatim>\<open>with\<close> block around \<^verbatim>\<open>call_next\<close> is left.
\<close>

definition metrics_middleware :: "env \<Rightarrow> request \<Rightarrow> app_state \<Rightarrow> outcome \<times> app_state" where
  "metrics_middleware ev req st =
     (let endpoint = url_path req;
          st1 = st\<lparr>request_count := inc (request_count st) endpoint\<rparr>;
          (out, st2) = dispatch ev req st1
      in (out, st2\<lparr>latency_count := inc (latency_count st2) endpoint\<rparr>))"

section \<open>Notions used in the statements\<close>

text \<open>
  The session of a request's credentials; a provider accepts the credentials when the
  session and the three clients are constructed without an exception, which takes the
  four SDK calls of \<open>client_calls\<close>.
\<close>

definition creds_session :: "AWSCreds \<Rightarrow> session" where
  "creds_session creds = Session (access_key creds) (secret_key creds) (region creds)"

definition sdk_accepts :: "boto3 \<Rightarrow> AWSCreds \<Rightarrow> bool" where
  "sdk_accepts b creds =
     (session_error b (access_key creds) (secret_key creds) (region creds) = None
      \<and> client_error b (creds_session creds) ''ec2'' = None
      \<and> client_error b (creds_session creds) ''s3'' = None
      \<and> client_error b (creds_session creds) ''ce'' = None)"

definition client_calls :: "AWSCreds \<Rightarrow> call list" where
  "client_calls creds =
     [NewSession (access_key creds) (secret_key creds) (region creds),
      NewClient ''ec2'', NewClient ''s3'', NewClient ''ce'']"

text \<open>The credentials of the examples.\<close>

definition creds0 :: AWSCreds where
  "creds0 = \<lparr>access_key = ''AKIA'', secret_key = ''s3cr3t'', region = ''us-east-1''\<rparr>"

text \<open>
  A service group and a response of the billing API, as the API shapes them: the
  service name is the only key, the amount is a decimal string; a response holds one
  time bucket for each list of groups.
\<close>

definition cost_group :: "string \<Rightarrow> string \<Rightarrow> pval" where
  "cost_group name amount =
     PDict [(PStr ''Keys'', PList [PStr name]),
            (PStr ''Metrics'',
               PDict [(PStr ''UnblendedCost'',
                        PDict [(PStr ''Amount'', PStr amount), (PStr ''Unit'', PStr ''USD'')])])]"

definition cost_response :: "pval list list \<Rightarrow> pval" where
  "cost_response buckets =
     PDict [(PStr ''ResultsByTime'', PList (map (\<lambda>gs. PDict [(PStr ''Groups'', PList gs)]) buckets))]"

text \<open>
  Rounding to the nearest integer with halves going up, and what it is for \<open>n\<close> to be
  the integer nearest to \<open>x\<close>, the even one when two are equally near.
\<close>

definition round_half_up :: "rat \<Rightarrow> int" where
  "round_half_up x = \<lfloor>x + 1 / 2\<rfloor>"

definition nearest_even :: "rat \<Rightarrow> int \<Rightarrow> bool" where
  "nearest_even x n =
     (\<bar>of_int n - x\<bar> < 1 / 2 \<or> (\<bar>of_int n - x\<bar> = 1 / 2 \<and> even n))"

text \<open>
  The first exception the SDK raises while the session and the three clients are
  constructed, and the exception the SDK raises in the course of each handler
  (\<open>None\<close> when the SDK raises nothing before the handler is done or fails by itself).
\<close>

definition construction_error :: "boto3 \<Rightarrow> AWSCreds \<Rightarrow> exn option" where
  "construction_error b creds =
     (case session_error b (access_key creds) (secret_key creds) (region creds) of
        Some e \<Rightarrow> Some e
      | None \<Rightarrow>
          (case client_error b (creds_session creds) ''ec2'' of
             Some e \<Rightarrow> Some e
           | None \<Rightarrow>
               (case client_error b (creds_session creds) ''s3'' of
                  Some e \<Rightarrow> Some e
                | None \<Rightarrow> client_error b (creds_session creds) ''ce'')))"

definition resources_sdk_error :: "boto3 \<Rightarrow> AWSCreds \<Rightarrow> exn option" where
  "resources_sdk_error b creds =
     (case construction_error b creds of
        Some e \<Rightarrow> Some e
      | None \<Rightarrow>
          (case describe_instances b (Client (creds_session creds) ''ec2'') of
             Inl e \<Rightarrow> Some e
           | Inr instances \<Rightarrow>
               (case count_instances instances of
                  Inl _ \<Rightarrow> None
                | Inr _ \<Rightarrow>
                    (case list_buckets b (Client (creds_session creds) ''s3'') of
                       Inl e \<Rightarrow> Some e
                     | Inr _ \<Rightarrow> None))))"

definition cost_sdk_error :: "boto3 \<Rightarrow> date \<Rightarrow> AWSCreds \<Rightarrow> exn option" where
  "cost_sdk_error b today creds =
     (case construction_error b creds of
        Some e \<Rightarrow> Some e
      | None \<Rightarrow>
          (case date_sub_days today 30 of
             Inl _ \<Rightarrow> None
           | Inr start \<Rightarrow>
               (case get_cost_and_usage b (Client (creds_session creds) ''ce'')
                       (cost_query start today) of
                  Inl e \<Rightarrow> Some e
                | Inr _ \<Rightarrow> None)))"

text \<open>A POST request with a JSON body, and the body that carries given credentials.\<close>

definition post :: "string \<Rightarrow> pval \<Rightarrow> request" where
  "post path payload = \<lparr>http_method = POST, url_path = path, json_body = Some payload\<rparr>"

definition creds_payload :: "AWSCreds \<Rightarrow> pval" where
  "creds_payload creds =
     PDict [(PStr ''access_key'', PStr (access_key creds)),
            (PStr ''secret_key'', PStr (secret_key creds)),
            (PStr ''region'', PStr (region creds))]"

text \<open>
  An environment and a starting state for the examples: a validation that accepts
  strings only, an empty exposition text, no request counted and no SDK call made;
  and a provider whose three API calls all fail.
\<close>

definition test_env :: "boto3 \<Rightarrow> date \<Rightarrow> env" where
  "test_env b today =
     \<lparr>sdk = b, clock = today, coerce_str = (\<lambda>_. None), generate_latest = (\<lambda>_ _. []),
      CONTENT_TYPE_LATEST = ''text/plain; version=0.0.4; charset=utf-8''\<rparr>"

definition fresh_state :: app_state where
  "fresh_state = \<lparr>request_count = (\<lambda>_. 0), latency_count = (\<lambda>_. 0), calls = []\<rparr>"

definition failing_boto3 :: boto3 where
  "failing_boto3 = stub_boto3 (Inl (SdkError ''AuthFailure'')) (Inl (SdkError ''AuthFailure''))
     (Inl (SdkError ''AuthFailure''))"

text \<open>
  The entries of a dictionary under a string key, and whether a dictionary has an entry
  under a key that Python takes for equal to \<open>k\<close> (for a NaN key: an entry under a NaN).
\<close>

definition has_entry :: "(pval \<times> pval) list \<Rightarrow> pval \<Rightarrow> bool" where
  "has_entry d k = (key_of k \<in> set (map (\<lambda>kv. key_of (fst kv)) d))"

definition entries_of :: "(pval \<times> pval) list \<Rightarrow> string \<Rightarrow> (pval \<times> pval) list" where
  "entries_of d s = filter (\<lambda>kv. fst kv = PStr s) d"

text \<open>\<^verbatim>\<open>date.toordinal()\<close>.\<close>

definition toordinal :: "date \<Rightarrow> int" where
  "toordinal d = (case d of Date n \<Rightarrow> n)"

text \<open>A provider whose billing call returns a given response.\<close>

definition billing_stub :: "pval \<Rightarrow> boto3" where
  "billing_stub response =
     stub_boto3 (Inl (SdkError ''unused'')) (Inl (SdkError ''unused'')) (Inr response)"

text \<open>Requests handled one after the other, each on the state the one before left.\<close>

definition serve :: "env \<Rightarrow> request list \<Rightarrow> app_state \<Rightarrow> app_state" where
  "serve ev reqs st = foldl (\<lambda>s req. snd (metrics_middleware ev req s)) st reqs"

text \<open>
  The value the loop of \<^verbatim>\<open>get_cost\<close> stores for a group, \<^verbatim>\<open>round(float(amount), 2)\<close>, when
  the amount is there and is a number; and the value stored for the last group of a
  list that carries the service name \<open>s\<close>, if there is one.
\<close>

definition rounded_amount :: "pval \<Rightarrow> pval option" where
  "rounded_amount grp =
     (case group_amount grp of
        Inl _ \<Rightarrow> None
      | Inr a \<Rightarrow> (case py_float a of Inl _ \<Rightarrow> None | Inr x \<Rightarrow> Some (PFloat (py_round2 x))))"

fun named_amount :: "pval list \<Rightarrow> string \<Rightarrow> pval option" where
  "named_amount [] s = None"
| "named_amount (grp # rest) s =
     (case named_amount rest s of
        Some v \<Rightarrow> Some v
      | None \<Rightarrow> (if group_service grp = Inr (PStr s) then rounded_amount grp else None))"

section \<open>Properties\<close>

subsection \<open>Running the SDK computations\<close>

lemma io_return_apply: "io_return x l = (Inr x, l)"
  by (simp add: io_return_def)

lemma io_lift_apply: "io_lift r l = (r, l)"
  by (simp add: io_lift_def)

lemma io_call_apply: "io_call c r l = (r, l @ [c])"
  by (simp add: io_call_def)

lemma io_bind_apply:
  "io_bind m f l = (case m l of (Inl e, l') \<Rightarrow> (Inl e, l') | (Inr x, l') \<Rightarrow> f x l')"
  by (simp add: io_bind_def)

lemmas io_apply = io_return_apply io_lift_apply io_call_apply io_bind_apply

lemma get_clients_accepted:
  assumes "sdk_accepts b creds"
  shows "get_clients b creds l =
     (Inr \<lparr>ec2 = Client (creds_session creds) ''ec2'', s3 = Client (creds_session creds) ''s3'',
           ce = Client (creds_session creds) ''ce''\<rparr>, l @ client_calls creds)"
  using assms
  by (simp add: sdk_accepts_def get_clients_def new_session_def new_client_def io_apply
      creds_session_def client_calls_def)

lemma sum_instances_lists:
  assumes "list_all2 (\<lambda>res is. py_getitem res (PStr ''Instances'') = Inr (PList is)) rs iss"
  shows "sum_instances rs acc = Inr (acc + int (sum_list (map length iss)))"
  using assms
  by (induction rs iss arbitrary: acc rule: list_all2_induct) simp_all

subsection \<open>\<^verbatim>\<open>/resources\<close> counts instances and buckets\<close>

text \<open>
  C1. When the provider accepts the credentials, the compute listing returns
  reservations \<open>rs\<close> whose instance lists are \<open>iss\<close>, and the storage listing returns the
  bucket list \<open>bs\<close>, \<^verbatim>\<open>get_resources\<close> returns exactly the dictionary
  \<^verbatim>\<open>{"ec2_instances": N, "s3_buckets": M}\<close>, with \<open>N\<close> the sum of the lengths of the
  instance lists and \<open>M\<close> the length of the bucket list.
\<close>

theorem resources_returns_counts:
  assumes acc: "sdk_accepts b creds"
    and di: "describe_instances b (Client (creds_session creds) ''ec2'') = Inr instances"
    and rs: "py_getitem instances (PStr ''Reservations'') = Inr (PList rs)"
    and iss: "list_all2 (\<lambda>res is. py_getitem res (PStr ''Instances'') = Inr (PList is)) rs iss"
    and lb: "list_buckets b (Client (creds_session creds) ''s3'') = Inr buckets"
    and bs: "py_getitem buckets (PStr ''Buckets'') = Inr (PList bs)"
  shows "fst (get_resources b creds l) =
           Inr (PDict [(PStr ''ec2_instances'', PInt (int (sum_list (map length iss)))),
                       (PStr ''s3_buckets'', PInt (int (length bs)))])"
proof -
  have ci: "count_instances instances = Inr (int (sum_list (map length iss)))"
    using rs sum_instances_lists [OF iss, of 0] by (simp add: count_instances_def)
  have cb: "count_buckets buckets = Inr (int (length bs))"
    using bs by (simp add: count_buckets_def)
  show ?thesis
    by (simp add: get_resources_def except_400_def resources_body_def io_apply
        get_clients_accepted [OF acc] di lb ci cb)
qed

text \<open>Three reservations of two, no and one instance, and two buckets.\<close>

theorem resources_returns_counts_witness:
  "fst (get_resources
      (stub_boto3
        (Inr (PDict [(PStr ''Reservations'',
           PList [PDict [(PStr ''Instances'', PList [PStr ''i-1'', PStr ''i-2''])],
                  PDict [(PStr ''Instances'', PList [])],
                  PDict [(PStr ''Instances'', PList [PStr ''i-3''])]])]))
        (Inr (PDict [(PStr ''Buckets'', PList [PStr ''b1'', PStr ''b2''])]))
        (Inl (SdkError ''unused'')))
      creds0 []) =
   Inr (PDict [(PStr ''ec2_instances'', PInt 3), (PStr ''s3_buckets'', PInt 2)])"
  using resources_returns_counts [of
      "stub_boto3
        (Inr (PDict [(PStr ''Reservations'',
           PList [PDict [(PStr ''Instances'', PList [PStr ''i-1'', PStr ''i-2''])],
                  PDict [(PStr ''Instances'', PList [])],
                  PDict [(PStr ''Instances'', PList [PStr ''i-3''])]])]))
        (Inr (PDict [(PStr ''Buckets'', PList [PStr ''b1'', PStr ''b2''])]))
        (Inl (SdkError ''unused''))"
      creds0
      "PDict [(PStr ''Reservations'',
           PList [PDict [(PStr ''Instances'', PList [PStr ''i-1'', PStr ''i-2''])],
                  PDict [(PStr ''Instances'', PList [])],
                  PDict [(PStr ''Instances'', PList [PStr ''i-3''])]])]"
      "[PDict [(PStr ''Instances'', PList [PStr ''i-1'', PStr ''i-2''])],
        PDict [(PStr ''Instances'', PList [])],
        PDict [(PStr ''Instances'', PList [PStr ''i-3''])]]"
      "[[PStr ''i-1'', PStr ''i-2''], [], [PStr ''i-3'']]"
      "PDict [(PStr ''Buckets'', PList [PStr ''b1'', PStr ''b2''])]"
      "[PStr ''b1'', PStr ''b2'']" "[]"]
  by (simp add: sdk_accepts_def stub_boto3_def key_eq_def)

subsection \<open>Rounding\<close>

lemma round_half_even_nearest: "nearest_even x (round_half_even x)"
proof -
  define f where "f = \<lfloor>x\<rfloor>"
  define d where "d = x - of_int f"
  have lo: "0 \<le> d" and hi: "d < 1"
    unfolding d_def f_def by linarith+
  have x: "x = of_int f + d"
    by (simp add: d_def)
  consider "d < 1 / 2" | "1 / 2 < d" | "d = 1 / 2" by linarith
  then show ?thesis
  proof cases
    case 1
    then have "round_half_even x = f"
      by (simp add: round_half_even_def Let_def f_def d_def)
    moreover have "\<bar>of_int f - x\<bar> < 1 / 2" using 1 lo x by simp
    ultimately show ?thesis by (simp add: nearest_even_def)
  next
    case 2
    then have "round_half_even x = f + 1"
      by (simp add: round_half_even_def Let_def f_def d_def)
    moreover have "\<bar>of_int (f + 1) - x\<bar> < 1 / 2" using 2 hi x by simp
    ultimately show ?thesis by (simp add: nearest_even_def)
  next
    case 3
    then have r: "round_half_even x = (if even f then f else f + 1)"
      by (simp add: round_half_even_def Let_def f_def d_def)
    have "\<bar>of_int f - x\<bar> = 1 / 2" "\<bar>of_int (f + 1) - x\<bar> = 1 / 2"
      using 3 x by simp_all
    then show ?thesis
      using r by (auto simp: nearest_even_def)
  qed
qed

lemma nearest_even_unique:
  assumes "nearest_even x n" and "nearest_even x m"
  shows "n = m"
proof (rule ccontr)
  assume ne: "n \<noteq> m"
  have a: "\<bar>of_int n - x\<bar> \<le> 1 / 2" and b: "\<bar>of_int m - x\<bar> \<le> 1 / 2"
    using assms by (auto simp: nearest_even_def)
  have "\<bar>(of_int n :: rat) - of_int m\<bar> \<le> 1" using a b by linarith
  then have "\<bar>n - m\<bar> \<le> 1"
    by (metis of_int_abs of_int_diff of_int_le_1_iff)
  with ne consider "n = m + 1" | "m = n + 1" by linarith
  then show False
  proof cases
    case 1
    then have "(of_int n :: rat) = of_int m + 1" by simp
    with a b have e: "\<bar>of_int n - x\<bar> = 1 / 2" "\<bar>of_int m - x\<bar> = 1 / 2" by linarith+
    with assms have "even n" "even m" by (auto simp: nearest_even_def)
    with 1 show False by simp
  next
    case 2
    then have "(of_int m :: rat) = of_int n + 1" by simp
    with a b have e: "\<bar>of_int n - x\<bar> = 1 / 2" "\<bar>of_int m - x\<bar> = 1 / 2" by linarith+
    with assms have "even n" "even m" by (auto simp: nearest_even_def)
    with 2 show False by simp
  qed
qed

lemma py_round2_pos:
  assumes "0 < v"
  shows "\<exists>n. nearest_even (v * 100) n \<and> py_round2 (Finite v) = rn (of_int n / 100)"
  using assms round_half_even_nearest [of "v * 100"]
  by (auto simp: py_round2_def)

lemma py_round2_neg:
  assumes "v < 0"
  shows "\<exists>n. nearest_even (- v * 100) n \<and> py_round2 (Finite v) = fneg (rn (of_int n / 100))"
  using assms round_half_even_nearest [of "- v * 100"]
  by (auto simp: py_round2_def)

subsection \<open>\<^verbatim>\<open>/cost\<close>: one group, and the whole request\<close>

lemma cost_step_string:
  assumes "group_service grp = Inr service" and "hashable service"
    and "group_amount grp = Inr (PStr a)" and "float_of_string a = Some x"
  shows "cost_step costs grp = Inr (dict_update costs service (PFloat (py_round2 x)))"
  using assms by (simp add: cost_step_def ebind_def dict_setitem_def)

lemma cost_group_service: "group_service (cost_group name a) = Inr (PStr name)"
  by (simp add: group_service_def cost_group_def ebind_def key_eq_def seq_getitem_def)

lemma cost_group_amount: "group_amount (cost_group name a) = Inr (PStr a)"
  by (simp add: group_amount_def cost_group_def ebind_def key_eq_def)

lemma stub_accepts: "sdk_accepts (stub_boto3 di lb cu) creds"
  by (simp add: sdk_accepts_def stub_boto3_def)

lemma cost_body_accepted:
  assumes "sdk_accepts b creds" and "date_sub_days today 30 = Inr start"
  shows "cost_body b today creds l =
     (case get_cost_and_usage b (Client (creds_session creds) ''ce'') (cost_query start today) of
        Inl e \<Rightarrow> Inl e
      | Inr response \<Rightarrow> build_costs response,
      l @ client_calls creds @ [GetCostAndUsage (cost_query start today)])"
  using assms
  by (simp add: cost_body_def io_apply get_clients_accepted split: sum.splits)

lemma build_costs_example:
  "build_costs (cost_response [[cost_group ''EC2'' ''12.345'', cost_group ''S3'' ''0.001'']]) =
     Inr (PDict [(PStr ''EC2'', PFloat (rn (1235 / 100))), (PStr ''S3'', PFloat (Finite 0))])"
  by code_simp

text \<open>
  C2, with ties going to even. For the billing response whose first time bucket holds the groups
  \<^verbatim>\<open>{"EC2": "12.345", "S3": "0.001"}\<close>, \<^verbatim>\<open>get_cost\<close> returns exactly
  \<^verbatim>\<open>{"EC2": 12.35, "S3": 0.0}\<close> (\<open>rn (1235 / 100)\<close> is the float \<^verbatim>\<open>12.35\<close>). In general the
  amount string of a group is parsed to a float and the float is rounded to two
  fractional digits to the nearest, a tie going to the even digit: the result is the
  float nearest to \<open>n / 100\<close>, where \<open>n\<close> is the integer nearest to a hundred times the
  exact value of the parsed float, the even one of two equally near.
\<close>

theorem cost_amounts_rounded_to_even:
  assumes "date_sub_days today 30 = Inr start"
  shows "fst (get_cost
            (stub_boto3 di lb
               (Inr (cost_response [[cost_group ''EC2'' ''12.345'', cost_group ''S3'' ''0.001'']])))
            today creds l) =
           Inr (PDict [(PStr ''EC2'', PFloat (rn (1235 / 100))), (PStr ''S3'', PFloat (Finite 0))])
     \<and> (\<forall>costs grp service a x.
           group_service grp = Inr service \<and> hashable service \<and>
           group_amount grp = Inr (PStr a) \<and> float_of_string a = Some x \<longrightarrow>
           cost_step costs grp = Inr (dict_update costs service (PFloat (py_round2 x))))
     \<and> (\<forall>v. 0 < v \<longrightarrow>
           (\<exists>n. nearest_even (v * 100) n \<and> py_round2 (Finite v) = rn (of_int n / 100)))
     \<and> (\<forall>v. v < 0 \<longrightarrow>
           (\<exists>n. nearest_even (- v * 100) n \<and> py_round2 (Finite v) = fneg (rn (of_int n / 100))))"
proof -
  have "fst (get_cost
            (stub_boto3 di lb
               (Inr (cost_response [[cost_group ''EC2'' ''12.345'', cost_group ''S3'' ''0.001'']])))
            today creds l) =
           Inr (PDict [(PStr ''EC2'', PFloat (rn (1235 / 100))), (PStr ''S3'', PFloat (Finite 0))])"
    using build_costs_example
    by (simp add: get_cost_def except_400_def cost_body_accepted [OF stub_accepts assms])
      (simp add: stub_boto3_def)
  then show ?thesis
    using cost_step_string py_round2_pos py_round2_neg by blast
qed


lemma float_of_eighth: "float_of_string ''0.125'' = Some (Finite (1 / 8))"
  by code_simp

theorem cost_amounts_rounded_to_even_witness:
  "fst (get_cost
          (stub_boto3 (Inl (SdkError ''unused'')) (Inl (SdkError ''unused''))
             (Inr (cost_response [[cost_group ''EC2'' ''12.345'', cost_group ''S3'' ''0.001'']])))
          (Date 738960) creds0 []) =
      Inr (PDict [(PStr ''EC2'', PFloat (rn (1235 / 100))), (PStr ''S3'', PFloat (Finite 0))])
   \<and> cost_step [] (cost_group ''X'' ''0.125'') =
      Inr [(PStr ''X'', PFloat (py_round2 (Finite (1 / 8))))]
   \<and> (\<exists>n. nearest_even (1 / 8 * 100) n \<and> py_round2 (Finite (1 / 8)) = rn (of_int n / 100))
   \<and> (\<exists>n. nearest_even (- (- 1 / 8) * 100) n
          \<and> py_round2 (Finite (- 1 / 8)) = fneg (rn (of_int n / 100)))"
proof -
  have d: "date_sub_days (Date 738960) 30 = Inr (Date 738930)"
    by (simp add: date_sub_days_def MAXORDINAL_def)
  note t = cost_amounts_rounded_to_even [OF d, where di = "Inl (SdkError ''unused'')"
      and lb = "Inl (SdkError ''unused'')" and creds = creds0 and l = "[]"]
  from t have t1: "fst (get_cost
          (stub_boto3 (Inl (SdkError ''unused'')) (Inl (SdkError ''unused''))
             (Inr (cost_response [[cost_group ''EC2'' ''12.345'', cost_group ''S3'' ''0.001'']])))
          (Date 738960) creds0 []) =
      Inr (PDict [(PStr ''EC2'', PFloat (rn (1235 / 100))), (PStr ''S3'', PFloat (Finite 0))])"
    by (rule conjunct1)
  from t have t2: "\<forall>costs grp service a x.
           group_service grp = Inr service \<and> hashable service \<and>
           group_amount grp = Inr (PStr a) \<and> float_of_string a = Some x \<longrightarrow>
           cost_step costs grp = Inr (dict_update costs service (PFloat (py_round2 x)))"
    by (rule conjunct1 [OF conjunct2])
  from t have t3: "\<forall>v::rat. 0 < v \<longrightarrow>
           (\<exists>n. nearest_even (v * 100) n \<and> py_round2 (Finite v) = rn (of_int n / 100))"
    by (rule conjunct1 [OF conjunct2 [OF conjunct2]])
  from t have t4: "\<forall>v::rat. v < 0 \<longrightarrow>
           (\<exists>n. nearest_even (- v * 100) n \<and> py_round2 (Finite v) = fneg (rn (of_int n / 100)))"
    by (rule conjunct2 [OF conjunct2 [OF conjunct2]])
  have h: "hashable (PStr ''X'')" by simp
  have s: "cost_step [] (cost_group ''X'' ''0.125'') =
      Inr (dict_update [] (PStr ''X'') (PFloat (py_round2 (Finite (1 / 8)))))"
    using t2 [rule_format, of "cost_group ''X'' ''0.125''" "PStr ''X''" "''0.125''" "Finite (1 / 8)" "[]"]
      cost_group_service [of "''X''" "''0.125''"] cost_group_amount [of "''X''" "''0.125''"]
      float_of_eighth h
    by blast
  have p: "\<exists>n. nearest_even (1 / 8 * 100) n \<and> py_round2 (Finite (1 / 8)) = rn (of_int n / 100)"
    using t3 [rule_format, of "1 / 8"] by simp
  have n: "\<exists>n. nearest_even (- (- 1 / 8) * 100) n
          \<and> py_round2 (Finite (- 1 / 8)) = fneg (rn (of_int n / 100))"
    using t4 [rule_format, of "- 1 / 8"] by simp
  from t1 s p n show ?thesis by simp
qed

text \<open>
  C2 with halves going up fails: the amount \<^verbatim>\<open>"0.125"\<close> is a float exactly, halves going
  up would give \<^verbatim>\<open>0.13\<close>, and \<^verbatim>\<open>get_cost\<close> returns \<^verbatim>\<open>0.12\<close>.
\<close>

theorem cost_half_up_counterexample:
  "fst (get_cost
          (stub_boto3 (Inl (SdkError ''unused'')) (Inl (SdkError ''unused''))
             (Inr (cost_response [[cost_group ''X'' ''0.125'']])))
          (Date 738960) creds0 []) \<noteq>
     Inr (PDict [(PStr ''X'', PFloat (rn (of_int (round_half_up (125 / 1000 * 100)) / 100)))])"
  by code_simp

subsection \<open>Exceptions inside the handlers\<close>

lemma construction_error_None: "construction_error b creds = None \<longleftrightarrow> sdk_accepts b creds"
  by (auto simp: construction_error_def sdk_accepts_def split: option.splits)

lemma get_clients_raises:
  assumes "construction_error b creds = Some e"
  shows "fst (get_clients b creds l) = Inl e"
  using assms
  by (auto simp: construction_error_def get_clients_def new_session_def new_client_def io_apply
      creds_session_def split: option.splits)

lemma io_bind_raises: "fst (m l) = Inl e \<Longrightarrow> fst (io_bind m f l) = Inl e"
  by (cases "m l") (simp add: io_bind_def)

lemma resources_body_raises:
  assumes "resources_sdk_error b creds = Some e"
  shows "fst (resources_body b creds l) = Inl e"
proof (cases "construction_error b creds")
  case (Some e')
  with assms have "e' = e" by (simp add: resources_sdk_error_def)
  with Some get_clients_raises [of b creds e l] show ?thesis
    by (simp add: resources_body_def io_bind_raises)
next
  case None
  then have acc: "sdk_accepts b creds" by (simp add: construction_error_None)
  show ?thesis
    using assms None
    by (auto simp: resources_sdk_error_def resources_body_def io_apply
        get_clients_accepted [OF acc] split: sum.splits)
qed

lemma cost_body_raises:
  assumes "cost_sdk_error b today creds = Some e"
  shows "fst (cost_body b today creds l) = Inl e"
proof (cases "construction_error b creds")
  case (Some e')
  with assms have "e' = e" by (simp add: cost_sdk_error_def)
  with Some get_clients_raises [of b creds e l] show ?thesis
    by (simp add: cost_body_def io_bind_raises)
next
  case None
  then have acc: "sdk_accepts b creds" by (simp add: construction_error_None)
  show ?thesis
    using assms None
    by (auto simp: cost_sdk_error_def cost_body_def io_apply
        get_clients_accepted [OF acc] split: sum.splits)
qed

lemma except_400_raises:
  "fst (m l) = Inl e \<Longrightarrow> fst (except_400 m l) = Inl (HTTPException 400 (Str e))"
  by (cases "m l") (simp add: except_400_def)

lemma except_400_status:
  "fst (except_400 m l) = Inl ex \<Longrightarrow> \<exists>e. ex = HTTPException 400 (Str e)"
  by (auto simp: except_400_def split: prod.splits sum.splits)

lemma validate_creds_payload: "validate_creds c (Some (creds_payload creds)) = Inr creds"
  by (simp add: validate_creds_def creds_payload_def required_str_def optional_str_def
      body_field_def str_field_def key_eq_def)

lemma run_handler_raises:
  "fst (h (calls st)) = Inl ex \<Longrightarrow> fst (run_handler h st) = Response (error_response ex)"
  by (cases "h (calls st)") (simp add: run_handler_def)

lemma middleware_fst: "fst (metrics_middleware ev req st) =
    fst (dispatch ev req (st\<lparr>request_count := inc (request_count st) (url_path req)\<rparr>))"
  by (simp add: metrics_middleware_def Let_def split: prod.splits)

lemma dispatch_resources:
  "dispatch ev (post ''/resources'' (creds_payload creds)) st =
     run_handler (get_resources (sdk ev) creds) st"
  by (simp add: dispatch_def post_def with_creds_def validate_creds_payload)

lemma dispatch_cost:
  "dispatch ev (post ''/cost'' (creds_payload creds)) st =
     run_handler (get_cost (sdk ev) (clock ev) creds) st"
  by (simp add: dispatch_def post_def with_creds_def validate_creds_payload)

lemma app_resources_raises:
  assumes "resources_sdk_error (sdk ev) creds = Some e"
  shows "fst (metrics_middleware ev (post ''/resources'' (creds_payload creds)) st) =
     Response \<lparr>status_code = 400, content_type = ''application/json'', body = Detail (Str e)\<rparr>"
proof -
  have "fst (get_resources (sdk ev) creds l) = Inl (HTTPException 400 (Str e))" for l
    using resources_body_raises [OF assms] by (simp add: get_resources_def except_400_raises)
  then show ?thesis
    by (simp add: middleware_fst dispatch_resources run_handler_raises error_response_def)
qed

lemma app_cost_raises:
  assumes "cost_sdk_error (sdk ev) (clock ev) creds = Some e"
  shows "fst (metrics_middleware ev (post ''/cost'' (creds_payload creds)) st) =
     Response \<lparr>status_code = 400, content_type = ''application/json'', body = Detail (Str e)\<rparr>"
proof -
  have "fst (get_cost (sdk ev) (clock ev) creds l) = Inl (HTTPException 400 (Str e))" for l
    using cost_body_raises [OF assms] by (simp add: get_cost_def except_400_raises)
  then show ?thesis
    by (simp add: middleware_fst dispatch_cost run_handler_raises error_response_def)
qed

text \<open>
  C3. When the SDK raises an exception \<open>e\<close> during the construction of the session or
  the clients, or in a provider call of \<^verbatim>\<open>get_resources\<close> or \<^verbatim>\<open>get_cost\<close>, the handler
  raises \<^verbatim>\<open>HTTPException\<close> with status 400 and the detail \<^verbatim>\<open>str(e)\<close>, and the request
  is answered with status 400 and that detail. Whatever either handler raises is an
  \<^verbatim>\<open>HTTPException\<close> with status 400: no other status and no other exception leaves it.
\<close>

theorem sdk_exception_gives_400:
  "(resources_sdk_error (sdk ev) creds = Some e \<longrightarrow>
      fst (get_resources (sdk ev) creds l) = Inl (HTTPException 400 (Str e))
      \<and> fst (metrics_middleware ev (post ''/resources'' (creds_payload creds)) st) =
          Response \<lparr>status_code = 400, content_type = ''application/json'', body = Detail (Str e)\<rparr>)
   \<and> (cost_sdk_error (sdk ev) (clock ev) creds = Some e \<longrightarrow>
      fst (get_cost (sdk ev) (clock ev) creds l) = Inl (HTTPException 400 (Str e))
      \<and> fst (metrics_middleware ev (post ''/cost'' (creds_payload creds)) st) =
          Response \<lparr>status_code = 400, content_type = ''application/json'', body = Detail (Str e)\<rparr>)
   \<and> (\<forall>ex. fst (get_resources (sdk ev) creds l) = Inl ex
            \<or> fst (get_cost (sdk ev) (clock ev) creds l) = Inl ex \<longrightarrow>
          (\<exists>e'. ex = HTTPException 400 (Str e')))"
proof (intro conjI impI allI)
  assume a: "resources_sdk_error (sdk ev) creds = Some e"
  show "fst (get_resources (sdk ev) creds l) = Inl (HTTPException 400 (Str e))"
    using resources_body_raises [OF a] by (simp add: get_resources_def except_400_raises)
  show "fst (metrics_middleware ev (post ''/resources'' (creds_payload creds)) st) =
          Response \<lparr>status_code = 400, content_type = ''application/json'', body = Detail (Str e)\<rparr>"
    by (rule app_resources_raises [OF a])
next
  assume a: "cost_sdk_error (sdk ev) (clock ev) creds = Some e"
  show "fst (get_cost (sdk ev) (clock ev) creds l) = Inl (HTTPException 400 (Str e))"
    using cost_body_raises [OF a] by (simp add: get_cost_def except_400_raises)
  show "fst (metrics_middleware ev (post ''/cost'' (creds_payload creds)) st) =
          Response \<lparr>status_code = 400, content_type = ''application/json'', body = Detail (Str e)\<rparr>"
    by (rule app_cost_raises [OF a])
next
  fix ex
  assume "fst (get_resources (sdk ev) creds l) = Inl ex
            \<or> fst (get_cost (sdk ev) (clock ev) creds l) = Inl ex"
  then show "\<exists>e'. ex = HTTPException 400 (Str e')"
    by (auto simp: get_resources_def get_cost_def dest: except_400_status)
qed


text \<open>A provider that rejects the credentials at the first API call.\<close>

theorem sdk_exception_gives_400_witness:
  "resources_sdk_error failing_boto3 creds0 = Some (SdkError ''AuthFailure'')
   \<and> cost_sdk_error failing_boto3 (Date 738960) creds0 = Some (SdkError ''AuthFailure'')
   \<and> fst (get_resources failing_boto3 creds0 []) =
        Inl (HTTPException 400 (Str (SdkError ''AuthFailure'')))
   \<and> fst (get_cost failing_boto3 (Date 738960) creds0 []) =
        Inl (HTTPException 400 (Str (SdkError ''AuthFailure'')))
   \<and> fst (metrics_middleware (test_env failing_boto3 (Date 738960))
            (post ''/resources'' (creds_payload creds0)) fresh_state) =
        Response \<lparr>status_code = 400, content_type = ''application/json'',
                  body = Detail (Str (SdkError ''AuthFailure''))\<rparr>
   \<and> fst (metrics_middleware (test_env failing_boto3 (Date 738960))
            (post ''/cost'' (creds_payload creds0)) fresh_state) =
        Response \<lparr>status_code = 400, content_type = ''application/json'',
                  body = Detail (Str (SdkError ''AuthFailure''))\<rparr>"
proof -
  have r: "resources_sdk_error (sdk (test_env failing_boto3 (Date 738960))) creds0 =
      Some (SdkError ''AuthFailure'')"
    by (simp add: resources_sdk_error_def construction_error_def failing_boto3_def
        stub_boto3_def test_env_def)
  have c: "cost_sdk_error (sdk (test_env failing_boto3 (Date 738960)))
      (clock (test_env failing_boto3 (Date 738960))) creds0 = Some (SdkError ''AuthFailure'')"
    by (simp add: cost_sdk_error_def construction_error_def failing_boto3_def
        stub_boto3_def test_env_def date_sub_days_def MAXORDINAL_def)
  show ?thesis
    using r c sdk_exception_gives_400 [of "test_env failing_boto3 (Date 738960)" creds0
        "SdkError ''AuthFailure''" "[]" fresh_state]
    by (simp add: test_env_def)
qed

subsection \<open>Validation comes before the SDK\<close>

lemma validate_creds_missing:
  assumes "body_field jb ''access_key'' = None \<or> body_field jb ''secret_key'' = None"
  shows "\<exists>errs. validate_creds c jb = Inl errs \<and> errs \<noteq> []"
proof (cases jb)
  case None
  then show ?thesis by (simp add: validate_creds_def)
next
  case (Some v)
  show ?thesis
  proof (cases v)
    case (PDict kvs)
    with Some assms show ?thesis
      by (auto simp: validate_creds_def required_str_def split: option.splits)
  qed (simp_all add: Some validate_creds_def)
qed

text \<open>
  C4. A POST request to \<^verbatim>\<open>/resources\<close> or \<^verbatim>\<open>/cost\<close> whose payload lacks \<^verbatim>\<open>access_key\<close> or
  \<^verbatim>\<open>secret_key\<close> is answered with the validation error 422, and the log of SDK calls
  is left as it was: no session, client or API call is attempted.
\<close>

theorem missing_key_rejected_before_sdk:
  assumes "body_field (json_body req) ''access_key'' = None
           \<or> body_field (json_body req) ''secret_key'' = None"
    and "http_method req = POST"
    and "url_path req = ''/resources'' \<or> url_path req = ''/cost''"
  shows "(\<exists>errs. errs \<noteq> [] \<and> fst (metrics_middleware ev req st) =
            Response \<lparr>status_code = 422, content_type = ''application/json'',
                      body = ValidationError errs\<rparr>)
         \<and> calls (snd (metrics_middleware ev req st)) = calls st"
proof -
  obtain errs where e: "validate_creds (coerce_str ev) (json_body req) = Inl errs" "errs \<noteq> []"
    using validate_creds_missing [OF assms(1)] by blast
  have "dispatch ev req st' = (Response (validation_response errs), st')" for st'
    using assms(2,3) e by (auto simp: dispatch_def with_creds_def)
  then show ?thesis
    using e(2) by (simp add: metrics_middleware_def Let_def validation_response_def)
qed

text \<open>A payload with the access key only, sent to \<^verbatim>\<open>/cost\<close>.\<close>

theorem missing_key_rejected_before_sdk_witness:
  "(\<exists>errs. errs \<noteq> [] \<and>
      fst (metrics_middleware (test_env failing_boto3 (Date 738960))
             (post ''/cost'' (PDict [(PStr ''access_key'', PStr ''AKIA'')])) fresh_state) =
        Response \<lparr>status_code = 422, content_type = ''application/json'',
                  body = ValidationError errs\<rparr>)
   \<and> calls (snd (metrics_middleware (test_env failing_boto3 (Date 738960))
             (post ''/cost'' (PDict [(PStr ''access_key'', PStr ''AKIA'')])) fresh_state)) = []"
  using missing_key_rejected_before_sdk [of
      "post ''/cost'' (PDict [(PStr ''access_key'', PStr ''AKIA'')])"
      "test_env failing_boto3 (Date 738960)" fresh_state]
  by (simp add: post_def body_field_def key_eq_def fresh_state_def)

subsection \<open>\<^verbatim>\<open>/health\<close> and \<^verbatim>\<open>/metrics\<close>\<close>

text \<open>
  C8. A GET request to \<^verbatim>\<open>/health\<close> is answered with status 200 and the body
  \<^verbatim>\<open>{"status": "ok"}\<close>, in every environment (whatever the provider does) and every
  state (whether or not credentials were ever supplied), and makes no SDK call.
\<close>

theorem health_always_ok:
  "fst (metrics_middleware ev \<lparr>http_method = GET, url_path = ''/health'', json_body = jb\<rparr> st) =
     Response \<lparr>status_code = 200, content_type = ''application/json'',
               body = Json (PDict [(PStr ''status'', PStr ''ok'')])\<rparr>
   \<and> calls (snd (metrics_middleware ev \<lparr>http_method = GET, url_path = ''/health'', json_body = jb\<rparr> st))
       = calls st"
  by (simp add: metrics_middleware_def Let_def dispatch_def json_response_def health_def)

text \<open>
  C7. What \<^verbatim>\<open>/metrics\<close> answers as the code is written: the returned tuple is encoded as
  a JSON array of the exposition text, the number 200 and the header dictionary, with
  the content type of JSON; the content type of the metrics library stays inside the
  body.
\<close>

theorem metrics_reply_is_json_array:
  "fst (metrics_middleware ev \<lparr>http_method = GET, url_path = ''/metrics'', json_body = jb\<rparr> st) =
     Response \<lparr>status_code = 200, content_type = ''application/json'',
               body = Json (PList [PStr (generate_latest ev (inc (request_count st) ''/metrics'')
                                           (latency_count st)),
                                   PInt 200,
                                   PDict [(PStr ''Content-Type'', PStr (CONTENT_TYPE_LATEST ev))]])\<rparr>"
  by (simp add: metrics_middleware_def Let_def dispatch_def json_response_def metrics_def
      encode_tuple_def)

subsection \<open>The dictionary built by the loop of \<^verbatim>\<open>get_cost\<close>\<close>

lemma key_eq_PStr [simp]: "key_eq k (PStr s) \<longleftrightarrow> k = PStr s"
  by (cases k rule: key_of.cases) (auto simp: key_eq_def)

lemma key_eq_PStr_left [simp]: "key_eq (PStr s) k \<longleftrightarrow> k = PStr s"
  by (cases k rule: key_of.cases) (auto simp: key_eq_def)

lemma entries_of_update_other:
  "k \<noteq> PStr s \<Longrightarrow> entries_of (dict_update d k v) s = entries_of d s"
  by (induction d) (auto simp: entries_of_def)

lemma entries_of_update_same:
  "length (entries_of d s) \<le> 1 \<Longrightarrow> entries_of (dict_update d (PStr s) v) s = [(PStr s, v)]"
proof (induction d)
  case Nil
  then show ?case by (simp add: entries_of_def)
next
  case (Cons kv d)
  obtain k0 v0 where kv: "kv = (k0, v0)" by (cases kv)
  show ?case
  proof (cases "k0 = PStr s")
    case True
    with Cons.prems kv have "entries_of d s = []" by (simp add: entries_of_def)
    with True kv show ?thesis by (simp add: entries_of_def)
  next
    case False
    with Cons kv show ?thesis by (simp add: entries_of_def)
  qed
qed

lemma dict_lookup_entries:
  "dict_lookup d (PStr s) = (case entries_of d s of [] \<Rightarrow> None | kv # _ \<Rightarrow> Some (snd kv))"
  by (induction d) (auto simp: entries_of_def)

lemma keys_of_update:
  "(\<lambda>kv. key_of (fst kv)) ` set (dict_update d k v) =
     insert (key_of k) ((\<lambda>kv. key_of (fst kv)) ` set d)"
proof (induction d)
  case Nil
  show ?case by simp
next
  case (Cons kv d)
  obtain k0 v0 where kv: "kv = (k0, v0)" by (cases kv)
  show ?case
  proof (cases "key_eq k0 k")
    case True
    then have "key_of k0 = key_of k" by (simp add: key_eq_def)
    with True kv show ?thesis by auto
  next
    case False
    with kv Cons.IH show ?thesis by auto
  qed
qed

lemma has_entry_update: "has_entry (dict_update d k v) k' \<longleftrightarrow> key_of k' = key_of k \<or> has_entry d k'"
  by (simp add: has_entry_def keys_of_update)

lemma cost_step_Inr:
  assumes "cost_step c g = Inr c'"
  shows "\<exists>k a x. group_service g = Inr k \<and> group_amount g = Inr a \<and> py_float a = Inr x
           \<and> hashable k \<and> c' = dict_update c k (PFloat (py_round2 x))"
  using assms
  by (auto simp: cost_step_def ebind_def dict_setitem_def split: sum.splits if_splits)

lemma cost_loop_append:
  "cost_loop (xs @ ys) c = (case cost_loop xs c of Inl e \<Rightarrow> Inl e | Inr c' \<Rightarrow> cost_loop ys c')"
  by (induction xs arbitrary: c) (auto split: sum.splits)

lemma cost_step_entries_le:
  assumes "cost_step c g = Inr c'" and "length (entries_of c s) \<le> 1"
  shows "length (entries_of c' s) \<le> 1"
proof -
  obtain k v where k: "c' = dict_update c k v"
    using cost_step_Inr [OF assms(1)] by blast
  show ?thesis
    using assms(2) k entries_of_update_other [of k s c v] entries_of_update_same [of c s v]
    by (cases "k = PStr s") auto
qed

lemma cost_loop_entries_le:
  assumes "cost_loop gs c = Inr c'" and "length (entries_of c s) \<le> 1"
  shows "length (entries_of c' s) \<le> 1"
  using assms
proof (induction gs arbitrary: c)
  case Nil
  then show ?case by simp
next
  case (Cons g gs)
  from Cons.prems(1) obtain c1 where s: "cost_step c g = Inr c1" and l: "cost_loop gs c1 = Inr c'"
    by (auto split: sum.splits)
  show ?case
    by (rule Cons.IH [OF l cost_step_entries_le [OF s Cons.prems(2)]])
qed

lemma cost_loop_entries_other:
  assumes "cost_loop gs c = Inr c'" and "\<forall>g\<in>set gs. group_service g \<noteq> Inr (PStr s)"
  shows "entries_of c' s = entries_of c s"
  using assms
proof (induction gs arbitrary: c)
  case Nil
  then show ?case by simp
next
  case (Cons g gs)
  from Cons.prems(1) obtain c1 where s: "cost_step c g = Inr c1" and l: "cost_loop gs c1 = Inr c'"
    by (auto split: sum.splits)
  obtain k v where k: "group_service g = Inr k" "c1 = dict_update c k v"
    using cost_step_Inr [OF s] by blast
  with Cons.prems(2) have "k \<noteq> PStr s" by auto
  then have "entries_of c1 s = entries_of c s"
    using k(2) by (simp add: entries_of_update_other)
  moreover have "entries_of c' s = entries_of c1 s"
    using Cons.IH [OF l] Cons.prems(2) by simp
  ultimately show ?case by simp
qed

lemma cost_loop_has_entry_mono:
  assumes "cost_loop gs c = Inr c'" and "has_entry c k"
  shows "has_entry c' k"
  using assms
proof (induction gs arbitrary: c)
  case Nil
  then show ?case by simp
next
  case (Cons g gs)
  from Cons.prems(1) obtain c1 where s: "cost_step c g = Inr c1" and l: "cost_loop gs c1 = Inr c'"
    by (auto split: sum.splits)
  have "has_entry c1 k"
    using cost_step_Inr [OF s] Cons.prems(2) by (auto simp: has_entry_update)
  then show ?case by (rule Cons.IH [OF l])
qed

lemma cost_loop_has_entry:
  assumes "cost_loop gs c = Inr c'" and "g \<in> set gs"
  shows "\<exists>k. group_service g = Inr k \<and> has_entry c' k"
  using assms
proof (induction gs arbitrary: c)
  case Nil
  then show ?case by simp
next
  case (Cons g0 gs)
  from Cons.prems(1) obtain c1 where s: "cost_step c g0 = Inr c1" and l: "cost_loop gs c1 = Inr c'"
    by (auto split: sum.splits)
  show ?case
  proof (cases "g = g0")
    case True
    obtain k v where k: "group_service g0 = Inr k" "c1 = dict_update c k v"
      using cost_step_Inr [OF s] by blast
    then have "has_entry c1 k" by (simp add: has_entry_update)
    then have "has_entry c' k" by (rule cost_loop_has_entry_mono [OF l])
    with k(1) True show ?thesis by blast
  next
    case False
    with Cons.prems(2) have "g \<in> set gs" by simp
    then show ?thesis by (rule Cons.IH [OF l])
  qed
qed

lemma cost_loop_unparsable:
  assumes "g \<in> set gs" and "group_amount g = Inr (PStr a)" and "float_of_string a = None"
  shows "\<exists>e. cost_loop gs c = Inl e"
  using assms(1)
proof (induction gs arbitrary: c)
  case Nil
  then show ?case by simp
next
  case (Cons g0 gs)
  show ?case
  proof (cases "cost_step c g0")
    case (Inl e)
    then show ?thesis by simp
  next
    case (Inr c1)
    have "g \<noteq> g0"
      using cost_step_Inr [OF Inr] assms(2,3) by auto
    with Cons.prems have "g \<in> set gs" by simp
    then show ?thesis using Cons.IH Inr by simp
  qed
qed


lemma get_cost_accepted:
  assumes "sdk_accepts b creds" and "date_sub_days today 30 = Inr start"
    and "get_cost_and_usage b (Client (creds_session creds) ''ce'') (cost_query start today)
           = Inr response"
  shows "get_cost b today creds l =
     (case build_costs response of Inl e \<Rightarrow> Inl (HTTPException 400 (Str e)) | Inr v \<Rightarrow> Inr v,
      l @ client_calls creds @ [GetCostAndUsage (cost_query start today)])"
  using assms(3)
  by (simp add: get_cost_def except_400_def cost_body_accepted [OF assms(1,2)] split: sum.splits)

lemma build_costs_Inr:
  assumes "build_costs response = Inr v"
  shows "\<exists>groups costs. first_groups response = Inr groups \<and> cost_loop groups [] = Inr costs
           \<and> v = PDict costs"
  using assms by (auto simp: build_costs_def ebind_def split: sum.splits)

lemma billing_stub_accepts: "sdk_accepts (billing_stub response) creds"
  by (simp add: billing_stub_def stub_accepts)

lemma billing_stub_response:
  "get_cost_and_usage (billing_stub response) c q = Inr response"
  by (simp add: billing_stub_def stub_boto3_def)

lemma march_15: "date_sub_days (Date 738960) 30 = Inr (Date 738930)"
  by (simp add: date_sub_days_def MAXORDINAL_def)

lemma first_groups_cost_response: "first_groups (cost_response (gs # others)) = Inr gs"
  by (simp add: first_groups_def cost_response_def ebind_def key_eq_def seq_getitem_def)

lemma dict_lookup_update_str:
  "dict_lookup (dict_update d k v) (PStr s) = (if k = PStr s then Some v else dict_lookup d (PStr s))"
  by (induction d) auto

lemma dict_update_entry:
  assumes "kv \<in> set (dict_update d k v)"
  shows "kv \<in> set d \<or> (snd kv = v \<and> key_of (fst kv) = key_of k)"
  using assms
proof (induction d)
  case Nil
  then show ?case by simp
next
  case (Cons kv0 d)
  obtain k0 v0 where kv0: "kv0 = (k0, v0)" by (cases kv0)
  show ?case
  proof (cases "key_eq k0 k")
    case True
    then have "key_of k0 = key_of k" by (simp add: key_eq_def)
    with True kv0 Cons.prems show ?thesis by auto
  next
    case False
    with kv0 Cons show ?thesis by auto
  qed
qed

lemma cost_step_rounded:
  assumes "cost_step c g = Inr c'"
  shows "\<exists>k v. group_service g = Inr k \<and> rounded_amount g = Some v \<and> c' = dict_update c k v"
  using cost_step_Inr [OF assms] by (auto simp: rounded_amount_def)

lemma cost_loop_lookup:
  assumes "cost_loop gs c = Inr c'"
  shows "dict_lookup c' (PStr s) =
     (case named_amount gs s of None \<Rightarrow> dict_lookup c (PStr s) | Some v \<Rightarrow> Some v)"
  using assms
proof (induction gs arbitrary: c)
  case Nil
  then show ?case by simp
next
  case (Cons g gs)
  from Cons.prems obtain c1 where st: "cost_step c g = Inr c1" and l: "cost_loop gs c1 = Inr c'"
    by (auto split: sum.splits)
  obtain k v where k: "group_service g = Inr k" "rounded_amount g = Some v"
      "c1 = dict_update c k v"
    using cost_step_rounded [OF st] by blast
  show ?case
    using Cons.IH [OF l] k by (auto simp: dict_lookup_update_str split: option.splits)
qed

lemma cost_loop_entries_from:
  assumes "cost_loop gs c = Inr c'"
    and "\<forall>kv\<in>set c. \<exists>g\<in>G. \<exists>k. group_service g = Inr k \<and> key_of k = key_of (fst kv)
            \<and> rounded_amount g = Some (snd kv)"
  shows "\<forall>kv\<in>set c'. \<exists>g\<in>G \<union> set gs. \<exists>k. group_service g = Inr k
            \<and> key_of k = key_of (fst kv) \<and> rounded_amount g = Some (snd kv)"
  using assms
proof (induction gs arbitrary: c G)
  case Nil
  then show ?case by simp
next
  case (Cons g gs)
  from Cons.prems(1) obtain c1 where st: "cost_step c g = Inr c1" and l: "cost_loop gs c1 = Inr c'"
    by (auto split: sum.splits)
  obtain k v where k: "group_service g = Inr k" "rounded_amount g = Some v"
      "c1 = dict_update c k v"
    using cost_step_rounded [OF st] by blast
  have "\<forall>kv\<in>set c1. \<exists>g'\<in>insert g G. \<exists>k'. group_service g' = Inr k'
            \<and> key_of k' = key_of (fst kv) \<and> rounded_amount g' = Some (snd kv)"
  proof
    fix kv
    assume "kv \<in> set c1"
    then consider "kv \<in> set c" | "snd kv = v \<and> key_of (fst kv) = key_of k"
      using dict_update_entry k(3) by blast
    then show "\<exists>g'\<in>insert g G. \<exists>k'. group_service g' = Inr k'
            \<and> key_of k' = key_of (fst kv) \<and> rounded_amount g' = Some (snd kv)"
    proof cases
      case 1
      with Cons.prems(2) show ?thesis by blast
    next
      case 2
      with k(1,2) show ?thesis by auto
    qed
  qed
  from Cons.IH [OF l this] show ?case by simp
qed

lemma build_costs_first_bucket:
  assumes "py_getitem response (PStr ''ResultsByTime'') = Inr rbt"
    and "py_getitem rbt (PInt 0) = Inr bucket"
  shows "build_costs response =
     ebind (ebind (py_getitem bucket (PStr ''Groups'')) py_iter) (\<lambda>groups.
     ebind (cost_loop groups []) (\<lambda>costs. Inr (PDict costs)))"
  using assms by (simp add: build_costs_def first_groups_def ebind_def)


subsection \<open>A service name that repeats\<close>

text \<open>
  C5. When the first time bucket of the billing response holds two groups \<open>g1\<close> and
  \<open>g2\<close> with the same service name \<open>s\<close>, \<open>g2\<close> being the last group of that name, the
  dictionary returned by \<^verbatim>\<open>get_cost\<close> has exactly one entry under \<open>s\<close>, and its value is
  the rounded amount of \<open>g2\<close>: the float of the amount of \<open>g2\<close>, rounded to the nearest
  hundredth, the even one of two equally near. The amount of the earlier group is
  overwritten.
\<close>

theorem duplicate_service_last_wins:
  assumes acc: "sdk_accepts b creds"
    and d: "date_sub_days today 30 = Inr start"
    and r: "get_cost_and_usage b (Client (creds_session creds) ''ce'') (cost_query start today)
              = Inr response"
    and fg: "first_groups response = Inr (front @ g2 # rest)"
    and g1: "g1 \<in> set front" "group_service g1 = Inr (PStr s)"
    and g2: "group_service g2 = Inr (PStr s)"
    and last: "\<forall>g\<in>set rest. group_service g \<noteq> Inr (PStr s)"
    and ok: "fst (get_cost b today creds l) = Inr v"
  shows "\<exists>costs a x. v = PDict costs \<and> group_amount g2 = Inr a \<and> py_float a = Inr x
           \<and> entries_of costs s = [(PStr s, PFloat (py_round2 x))]
           \<and> py_getitem v (PStr s) = Inr (PFloat (py_round2 x))
           \<and> (\<forall>q. x = Finite q \<and> 0 < q \<longrightarrow>
                 (\<exists>n. nearest_even (q * 100) n \<and> py_round2 x = rn (of_int n / 100)))
           \<and> (\<forall>q. x = Finite q \<and> q < 0 \<longrightarrow>
                 (\<exists>n. nearest_even (- q * 100) n \<and> py_round2 x = fneg (rn (of_int n / 100))))"
proof -
  from ok have "build_costs response = Inr v"
    by (simp add: get_cost_accepted [OF acc d r] split: sum.splits)
  then obtain costs where loop: "cost_loop (front @ g2 # rest) [] = Inr costs" and v: "v = PDict costs"
    using build_costs_Inr fg by fastforce
  from loop obtain c1 c2 where c1: "cost_loop front [] = Inr c1"
    and c2: "cost_step c1 g2 = Inr c2" and c3: "cost_loop rest c2 = Inr costs"
    by (auto simp: cost_loop_append split: sum.splits)
  have le: "length (entries_of c1 s) \<le> 1"
    using cost_loop_entries_le [OF c1] by (simp add: entries_of_def)
  obtain k a x where step: "group_service g2 = Inr k" "group_amount g2 = Inr a"
      "py_float a = Inr x" "c2 = dict_update c1 k (PFloat (py_round2 x))"
    using cost_step_Inr [OF c2] by blast
  from step(1) g2 have k: "k = PStr s" by simp
  have "entries_of c2 s = [(PStr s, PFloat (py_round2 x))]"
    using step(4) k entries_of_update_same [OF le] by simp
  then have e: "entries_of costs s = [(PStr s, PFloat (py_round2 x))]"
    using cost_loop_entries_other [OF c3 last] by simp
  then have "dict_lookup costs (PStr s) = Some (PFloat (py_round2 x))"
    by (simp add: dict_lookup_entries)
  then have get: "py_getitem v (PStr s) = Inr (PFloat (py_round2 x))"
    using v by simp
  have pos: "\<forall>q. x = Finite q \<and> 0 < q \<longrightarrow>
      (\<exists>n. nearest_even (q * 100) n \<and> py_round2 x = rn (of_int n / 100))"
    using py_round2_pos by blast
  have neg: "\<forall>q. x = Finite q \<and> q < 0 \<longrightarrow>
      (\<exists>n. nearest_even (- q * 100) n \<and> py_round2 x = fneg (rn (of_int n / 100)))"
    using py_round2_neg by blast
  from v step(2,3) e get pos neg show ?thesis by blast
qed

text \<open>
  \<^verbatim>\<open>EC2\<close> at 1.004, \<^verbatim>\<open>S3\<close> at 2.50, then \<^verbatim>\<open>EC2\<close> again at 3.149: the one entry under
  \<^verbatim>\<open>EC2\<close> holds the float \<^verbatim>\<open>3.15\<close>, which is \<open>7093169413108531 / 2\<^sup>5\<^sup>1\<close>.
\<close>

lemma duplicate_example:
  "fst (get_cost
     (billing_stub (cost_response
        [[cost_group ''EC2'' ''1.004'', cost_group ''S3'' ''2.50'', cost_group ''EC2'' ''3.149'']]))
     (Date 738960) creds0 []) =
   Inr (PDict [(PStr ''EC2'', PFloat (Finite (7093169413108531 / 2251799813685248))),
               (PStr ''S3'', PFloat (Finite (5 / 2)))])"
  by code_simp

lemma float_3_149:
  "float_of_string ''3.149'' = Some (Finite (3545458806647423 / 1125899906842624))"
  by code_simp

lemma round_3_149:
  "py_round2 (Finite (3545458806647423 / 1125899906842624)) =
     Finite (7093169413108531 / 2251799813685248)"
  by code_simp

lemma float_3_15: "rn (315 / 100) = Finite (7093169413108531 / 2251799813685248)"
  by code_simp

theorem duplicate_service_last_wins_witness:
  "fst (get_cost
     (billing_stub (cost_response
        [[cost_group ''EC2'' ''1.004'', cost_group ''S3'' ''2.50'', cost_group ''EC2'' ''3.149'']]))
     (Date 738960) creds0 []) =
     Inr (PDict [(PStr ''EC2'', PFloat (Finite (7093169413108531 / 2251799813685248))),
                 (PStr ''S3'', PFloat (Finite (5 / 2)))])
   \<and> entries_of [(PStr ''EC2'', PFloat (Finite (7093169413108531 / 2251799813685248))),
                 (PStr ''S3'', PFloat (Finite (5 / 2)))] ''EC2'' =
       [(PStr ''EC2'', PFloat (rn (315 / 100)))]
   \<and> py_getitem
         (PDict [(PStr ''EC2'', PFloat (Finite (7093169413108531 / 2251799813685248))),
                 (PStr ''S3'', PFloat (Finite (5 / 2)))])
         (PStr ''EC2'') = Inr (PFloat (rn (315 / 100)))
   \<and> (\<exists>n. nearest_even (3545458806647423 / 1125899906842624 * 100) n
          \<and> rn (315 / 100) = rn (of_int n / 100))"
proof -
  have fg: "first_groups (cost_response
        [[cost_group ''EC2'' ''1.004'', cost_group ''S3'' ''2.50'', cost_group ''EC2'' ''3.149'']]) =
      Inr ([cost_group ''EC2'' ''1.004'', cost_group ''S3'' ''2.50''] @ cost_group ''EC2'' ''3.149'' # [])"
    by (simp add: first_groups_cost_response)
  have g1: "cost_group ''EC2'' ''1.004'' \<in> set [cost_group ''EC2'' ''1.004'', cost_group ''S3'' ''2.50'']"
    by simp
  have last: "\<forall>g\<in>set []. group_service g \<noteq> Inr (PStr ''EC2'')"
    by simp
  obtain costs a x where
      v: "PDict [(PStr ''EC2'', PFloat (Finite (7093169413108531 / 2251799813685248))),
                 (PStr ''S3'', PFloat (Finite (5 / 2)))] = PDict costs"
    and a: "group_amount (cost_group ''EC2'' ''3.149'') = Inr a"
    and x: "py_float a = Inr x"
    and e: "entries_of costs ''EC2'' = [(PStr ''EC2'', PFloat (py_round2 x))]"
    and g: "py_getitem
         (PDict [(PStr ''EC2'', PFloat (Finite (7093169413108531 / 2251799813685248))),
                 (PStr ''S3'', PFloat (Finite (5 / 2)))])
         (PStr ''EC2'') = Inr (PFloat (py_round2 x))"
    and p: "\<forall>q. x = Finite q \<and> 0 < q \<longrightarrow>
                 (\<exists>n. nearest_even (q * 100) n \<and> py_round2 x = rn (of_int n / 100))"
    using duplicate_service_last_wins [OF billing_stub_accepts march_15 billing_stub_response
          fg g1 cost_group_service cost_group_service last duplicate_example]
    by blast
  from a have "a = PStr ''3.149''" by (simp add: cost_group_amount)
  with x have x': "x = Finite (3545458806647423 / 1125899906842624)"
    by (simp add: float_3_149)
  then have r: "py_round2 x = rn (315 / 100)"
    by (simp only: round_3_149 float_3_15)
  have q0: "(0::rat) < 3545458806647423 / 1125899906842624" by simp
  obtain n where n: "nearest_even (3545458806647423 / 1125899906842624 * 100) n"
      "py_round2 x = rn (of_int n / 100)"
    using p [rule_format, OF conjI [OF x' q0]] by blast
  have ex: "\<exists>n. nearest_even (3545458806647423 / 1125899906842624 * 100) n
          \<and> rn (315 / 100) = rn (of_int n / 100)"
    using n(1) trans [OF r [symmetric] n(2)] by blast
  from v have c: "costs = [(PStr ''EC2'', PFloat (Finite (7093169413108531 / 2251799813685248))),
                 (PStr ''S3'', PFloat (Finite (5 / 2)))]"
    by (simp only: pval.inject)
  show ?thesis
    using duplicate_example e [unfolded c r] g [unfolded r] ex by (intro conjI)
qed


subsection \<open>The query sent to the billing client\<close>

text \<open>
  C6. When \<^verbatim>\<open>get_cost\<close> succeeds, the one call it made to the billing client, after the
  session and the clients, carries the time period from today minus 30 days to today,
  both printed by \<^verbatim>\<open>strftime("%Y-%m-%d")\<close>, the granularity \<^verbatim>\<open>MONTHLY\<close>, the metric
  \<^verbatim>\<open>UnblendedCost\<close> and the grouping by the dimension \<^verbatim>\<open>SERVICE\<close>. The returned
  dictionary is built from the groups of \<^verbatim>\<open>ResultsByTime[0]\<close>, the first time bucket, and
  from nothing else: every group of that bucket has an entry, every entry has the key
  and the rounded amount of a group of that bucket, under a service name the
  dictionary holds the rounded amount of the last group of that name (and nothing
  under a name no group carries), and any response with the same first bucket gives
  the same dictionary.
\<close>

theorem cost_query_and_first_bucket:
  assumes ok: "fst (get_cost b today creds l) = Inr v"
  shows "\<exists>start response rbt bucket gs groups costs.
      date_sub_days today 30 = Inr start
    \<and> toordinal start = toordinal today - 30
    \<and> snd (get_cost b today creds l) = l @ client_calls creds @
        [GetCostAndUsage
          (PDict [(PStr ''TimePeriod'',
                    PDict [(PStr ''Start'', PStr (strftime_ymd start)),
                           (PStr ''End'', PStr (strftime_ymd today))]),
                  (PStr ''Granularity'', PStr ''MONTHLY''),
                  (PStr ''Metrics'', PList [PStr ''UnblendedCost'']),
                  (PStr ''GroupBy'',
                    PList [PDict [(PStr ''Type'', PStr ''DIMENSION''),
                                  (PStr ''Key'', PStr ''SERVICE'')]])])]
    \<and> get_cost_and_usage b (Client (creds_session creds) ''ce'') (cost_query start today)
        = Inr response
    \<and> py_getitem response (PStr ''ResultsByTime'') = Inr rbt
    \<and> py_getitem rbt (PInt 0) = Inr bucket
    \<and> py_getitem bucket (PStr ''Groups'') = Inr gs
    \<and> py_iter gs = Inr groups
    \<and> cost_loop groups [] = Inr costs
    \<and> v = PDict costs
    \<and> (\<forall>g\<in>set groups. \<exists>k. group_service g = Inr k \<and> has_entry costs k)
    \<and> (\<forall>kv\<in>set costs. \<exists>g\<in>set groups. \<exists>k. group_service g = Inr k
           \<and> key_of k = key_of (fst kv) \<and> rounded_amount g = Some (snd kv))
    \<and> (\<forall>s. dict_lookup costs (PStr s) = named_amount groups s)
    \<and> (\<forall>response' rbt'.
           py_getitem response' (PStr ''ResultsByTime'') = Inr rbt'
           \<and> py_getitem rbt' (PInt 0) = Inr bucket \<longrightarrow>
           build_costs response' = Inr v)"
proof -
  have acc: "sdk_accepts b creds"
  proof (rule ccontr)
    assume "\<not> sdk_accepts b creds"
    then obtain e where "construction_error b creds = Some e"
      using construction_error_None [of b creds] by (cases "construction_error b creds") auto
    then have "fst (cost_body b today creds l) = Inl e"
      by (simp add: cost_body_def io_bind_raises get_clients_raises)
    then show False
      using ok by (simp add: get_cost_def except_400_raises)
  qed
  obtain start where d: "date_sub_days today 30 = Inr start"
  proof (cases "date_sub_days today 30")
    case (Inl e)
    then have "fst (cost_body b today creds l) = Inl e"
      by (simp add: cost_body_def io_apply get_clients_accepted [OF acc])
    then show ?thesis using ok by (simp add: get_cost_def except_400_raises)
  next
    case (Inr start)
    then show ?thesis by (rule that)
  qed
  have ord: "toordinal start = toordinal today - 30"
    using d by (auto simp: date_sub_days_def toordinal_def Let_def split: date.splits if_splits)
  obtain response where r: "get_cost_and_usage b (Client (creds_session creds) ''ce'')
      (cost_query start today) = Inr response"
  proof (cases "get_cost_and_usage b (Client (creds_session creds) ''ce'') (cost_query start today)")
    case (Inl e)
    then have "fst (cost_body b today creds l) = Inl e"
      by (simp add: cost_body_accepted [OF acc d])
    then show ?thesis using ok by (simp add: get_cost_def except_400_raises)
  next
    case (Inr response)
    then show ?thesis by (rule that)
  qed
  note gc = get_cost_accepted [OF acc d r, of l]
  from ok gc have bc: "build_costs response = Inr v"
    by (simp split: sum.splits)
  then obtain groups costs where fg: "first_groups response = Inr groups"
    and loop: "cost_loop groups [] = Inr costs" and v: "v = PDict costs"
    using build_costs_Inr by blast
  from fg obtain rbt bucket gs where path:
    "py_getitem response (PStr ''ResultsByTime'') = Inr rbt"
    "py_getitem rbt (PInt 0) = Inr bucket"
    "py_getitem bucket (PStr ''Groups'') = Inr gs"
    "py_iter gs = Inr groups"
    by (auto simp: first_groups_def ebind_def split: sum.splits)
  have lg: "snd (get_cost b today creds l) =
      l @ client_calls creds @ [GetCostAndUsage (cost_query start today)]"
    using gc by simp
  have every: "\<forall>g\<in>set groups. \<exists>k. group_service g = Inr k \<and> has_entry costs k"
    using cost_loop_has_entry [OF loop] by blast
  have origin: "\<forall>kv\<in>set costs. \<exists>g\<in>set groups. \<exists>k. group_service g = Inr k
           \<and> key_of k = key_of (fst kv) \<and> rounded_amount g = Some (snd kv)"
    using cost_loop_entries_from [OF loop, of "{}"] by simp
  have lookup: "\<forall>s. dict_lookup costs (PStr s) = named_amount groups s"
    using cost_loop_lookup [OF loop] by (auto split: option.splits)
  have same: "\<forall>response' rbt'.
           py_getitem response' (PStr ''ResultsByTime'') = Inr rbt'
           \<and> py_getitem rbt' (PInt 0) = Inr bucket \<longrightarrow>
           build_costs response' = Inr v"
  proof (intro allI impI)
    fix response' rbt'
    assume h: "py_getitem response' (PStr ''ResultsByTime'') = Inr rbt'
           \<and> py_getitem rbt' (PInt 0) = Inr bucket"
    have "build_costs response' = build_costs response"
      using build_costs_first_bucket [of response' rbt' bucket]
        build_costs_first_bucket [OF path(1,2)] h by simp
    with bc show "build_costs response' = Inr v" by simp
  qed
  show ?thesis
    using d ord r path loop v lg every origin lookup same unfolding cost_query_def by blast
qed

text \<open>
  On 2024-03-15, with a response of two buckets, \<^verbatim>\<open>EC2\<close> at 12.345 in the first and \<^verbatim>\<open>S3\<close>
  in the second: the period starts on 2024-02-14, and the result is \<^verbatim>\<open>{"EC2": 12.35}\<close>
  (the float \<^verbatim>\<open>12.35\<close> is \<open>6952431924753203 / 2\<^sup>4\<^sup>9\<close>), with nothing under \<^verbatim>\<open>S3\<close>.
\<close>

lemma feb_14: "strftime_ymd (Date 738930) = ''2024-02-14''"
  by code_simp

lemma mar_15: "strftime_ymd (Date 738960) = ''2024-03-15''"
  by code_simp

lemma two_buckets_example:
  "fst (get_cost
     (billing_stub (cost_response
        [[cost_group ''EC2'' ''12.345''], [cost_group ''S3'' ''0.001'']]))
     (Date 738960) creds0 []) =
   Inr (PDict [(PStr ''EC2'', PFloat (Finite (6952431924753203 / 562949953421312)))])"
  by code_simp

theorem cost_query_and_first_bucket_witness:
  "get_cost
     (billing_stub (cost_response
        [[cost_group ''EC2'' ''12.345''], [cost_group ''S3'' ''0.001'']]))
     (Date 738960) creds0 [] =
   (Inr (PDict [(PStr ''EC2'', PFloat (Finite (6952431924753203 / 562949953421312)))]),
    client_calls creds0 @
     [GetCostAndUsage
        (PDict [(PStr ''TimePeriod'',
                  PDict [(PStr ''Start'', PStr ''2024-02-14''),
                         (PStr ''End'', PStr ''2024-03-15'')]),
                (PStr ''Granularity'', PStr ''MONTHLY''),
                (PStr ''Metrics'', PList [PStr ''UnblendedCost'']),
                (PStr ''GroupBy'',
                  PList [PDict [(PStr ''Type'', PStr ''DIMENSION''),
                                (PStr ''Key'', PStr ''SERVICE'')]])])])
   \<and> named_amount [cost_group ''EC2'' ''12.345''] ''EC2'' =
       Some (PFloat (Finite (6952431924753203 / 562949953421312)))
   \<and> named_amount [cost_group ''EC2'' ''12.345''] ''S3'' = None"
proof -
  obtain start response rbt bucket gs groups costs where
      d: "date_sub_days (Date 738960) 30 = Inr start"
    and lg: "snd (get_cost
       (billing_stub (cost_response
          [[cost_group ''EC2'' ''12.345''], [cost_group ''S3'' ''0.001'']]))
       (Date 738960) creds0 []) = [] @ client_calls creds0 @
        [GetCostAndUsage
          (PDict [(PStr ''TimePeriod'',
                    PDict [(PStr ''Start'', PStr (strftime_ymd start)),
                           (PStr ''End'', PStr (strftime_ymd (Date 738960)))]),
                  (PStr ''Granularity'', PStr ''MONTHLY''),
                  (PStr ''Metrics'', PList [PStr ''UnblendedCost'']),
                  (PStr ''GroupBy'',
                    PList [PDict [(PStr ''Type'', PStr ''DIMENSION''),
                                  (PStr ''Key'', PStr ''SERVICE'')]])])]"
    and r: "get_cost_and_usage
       (billing_stub (cost_response
          [[cost_group ''EC2'' ''12.345''], [cost_group ''S3'' ''0.001'']]))
       (Client (creds_session creds0) ''ce'') (cost_query start (Date 738960)) = Inr response"
    and p1: "py_getitem response (PStr ''ResultsByTime'') = Inr rbt"
    and p2: "py_getitem rbt (PInt 0) = Inr bucket"
    and p3: "py_getitem bucket (PStr ''Groups'') = Inr gs"
    and p4: "py_iter gs = Inr groups"
    and v: "PDict [(PStr ''EC2'', PFloat (Finite (6952431924753203 / 562949953421312)))] = PDict costs"
    and lk: "\<forall>s. dict_lookup costs (PStr s) = named_amount groups s"
    using cost_query_and_first_bucket [OF two_buckets_example] by blast
  from d have start: "start = Date 738930" by (simp add: march_15)
  from r have "response = cost_response
          [[cost_group ''EC2'' ''12.345''], [cost_group ''S3'' ''0.001'']]"
    by (simp add: billing_stub_response)
  with p1 p2 p3 p4 have groups: "groups = [cost_group ''EC2'' ''12.345'']"
    by (auto simp: cost_response_def key_eq_def seq_getitem_def)
  from v have costs: "costs = [(PStr ''EC2'', PFloat (Finite (6952431924753203 / 562949953421312)))]"
    by (simp only: pval.inject)
  have n1: "named_amount [cost_group ''EC2'' ''12.345''] ''EC2'' =
       Some (PFloat (Finite (6952431924753203 / 562949953421312)))"
    using lk [rule_format, of "''EC2''"] unfolding groups costs by simp
  have n2: "named_amount [cost_group ''EC2'' ''12.345''] ''S3'' = None"
    using lk [rule_format, of "''S3''"] unfolding groups costs by simp
  have "snd (get_cost
       (billing_stub (cost_response
          [[cost_group ''EC2'' ''12.345''], [cost_group ''S3'' ''0.001'']]))
       (Date 738960) creds0 []) = client_calls creds0 @
     [GetCostAndUsage
        (PDict [(PStr ''TimePeriod'',
                  PDict [(PStr ''Start'', PStr ''2024-02-14''),
                         (PStr ''End'', PStr ''2024-03-15'')]),
                (PStr ''Granularity'', PStr ''MONTHLY''),
                (PStr ''Metrics'', PList [PStr ''UnblendedCost'']),
                (PStr ''GroupBy'',
                  PList [PDict [(PStr ''Type'', PStr ''DIMENSION''),
                                (PStr ''Key'', PStr ''SERVICE'')]])])]"
    using lg unfolding start feb_14 mar_15 by simp
  with two_buckets_example n1 n2 show ?thesis
    by (simp add: prod_eq_iff)
qed

subsection \<open>All or nothing\<close>

lemma app_cost:
  "fst (metrics_middleware ev (post ''/cost'' (creds_payload creds)) st) =
     (case fst (get_cost (sdk ev) (clock ev) creds (calls st)) of
        Inl ex \<Rightarrow> Response (error_response ex)
      | Inr v \<Rightarrow> Response (json_response v))"
  by (cases "get_cost (sdk ev) (clock ev) creds (calls st)")
    (simp add: middleware_fst dispatch_cost run_handler_def split: sum.splits)

lemma get_cost_fst_accepted:
  assumes "sdk_accepts b creds" and "date_sub_days today 30 = Inr start"
    and "get_cost_and_usage b (Client (creds_session creds) ''ce'') (cost_query start today)
           = Inr response"
  shows "fst (get_cost b today creds l) =
     (case build_costs response of Inl e \<Rightarrow> Inl (HTTPException 400 (Str e)) | Inr v \<Rightarrow> Inr v)"
  by (simp add: get_cost_accepted [OF assms])

lemma build_costs_unparsable:
  assumes "first_groups response = Inr groups" and "g \<in> set groups"
    and "group_amount g = Inr (PStr a)" and "float_of_string a = None"
  shows "\<exists>e. build_costs response = Inl e"
  using cost_loop_unparsable [OF assms(2,3,4), of "[]"] assms(1)
  by (auto simp: build_costs_def ebind_def)

lemma build_costs_no_bucket:
  assumes "py_getitem response (PStr ''ResultsByTime'') = Inr (PList [])"
  shows "build_costs response = Inl IndexError"
  using assms by (simp add: build_costs_def first_groups_def ebind_def seq_getitem_def)

lemma build_costs_entries:
  assumes "build_costs response = Inr v"
  shows "\<exists>groups costs. first_groups response = Inr groups \<and> v = PDict costs
           \<and> (\<forall>g\<in>set groups. \<exists>k. group_service g = Inr k \<and> has_entry costs k)"
proof -
  obtain groups costs where fg: "first_groups response = Inr groups"
    and loop: "cost_loop groups [] = Inr costs" and v: "v = PDict costs"
    using build_costs_Inr [OF assms] by blast
  have "\<forall>g\<in>set groups. \<exists>k. group_service g = Inr k \<and> has_entry costs k"
    using cost_loop_has_entry [OF loop] by blast
  with fg v show ?thesis by blast
qed

text \<open>
  C10. With the provider accepting the credentials and the billing call returning
  \<open>response\<close>: if a group of the first time bucket has an amount string that \<^verbatim>\<open>float\<close>
  does not parse, or if \<^verbatim>\<open>ResultsByTime\<close> is empty, \<^verbatim>\<open>get_cost\<close> raises the
  \<^verbatim>\<open>HTTPException\<close> with status 400 and the request is answered with status 400 and the
  detail alone, no part of a mapping; and a response with status 200 carries the
  dictionary that \<^verbatim>\<open>get_cost\<close> returned, which has an entry for every group of the first
  time bucket.
\<close>

theorem cost_all_or_nothing:
  assumes acc: "sdk_accepts (sdk ev) creds"
    and d: "date_sub_days (clock ev) 30 = Inr start"
    and r: "get_cost_and_usage (sdk ev) (Client (creds_session creds) ''ce'')
              (cost_query start (clock ev)) = Inr response"
  shows "(\<forall>groups g a.
            first_groups response = Inr groups \<and> g \<in> set groups \<and>
            group_amount g = Inr (PStr a) \<and> float_of_string a = None \<longrightarrow>
            (\<exists>e. fst (get_cost (sdk ev) (clock ev) creds (calls st)) =
                    Inl (HTTPException 400 (Str e))
                \<and> fst (metrics_middleware ev (post ''/cost'' (creds_payload creds)) st) =
                    Response \<lparr>status_code = 400, content_type = ''application/json'',
                              body = Detail (Str e)\<rparr>))
       \<and> (py_getitem response (PStr ''ResultsByTime'') = Inr (PList []) \<longrightarrow>
            fst (get_cost (sdk ev) (clock ev) creds (calls st)) =
              Inl (HTTPException 400 (Str IndexError))
            \<and> fst (metrics_middleware ev (post ''/cost'' (creds_payload creds)) st) =
                Response \<lparr>status_code = 400, content_type = ''application/json'',
                          body = Detail (Str IndexError)\<rparr>)
       \<and> (\<forall>rsp. fst (metrics_middleware ev (post ''/cost'' (creds_payload creds)) st) = Response rsp
                 \<and> status_code rsp = 200 \<longrightarrow>
            (\<exists>groups costs.
                first_groups response = Inr groups
              \<and> fst (get_cost (sdk ev) (clock ev) creds (calls st)) = Inr (PDict costs)
              \<and> body rsp = Json (PDict costs)
              \<and> (\<forall>g\<in>set groups. \<exists>k. group_service g = Inr k \<and> has_entry costs k)))"
proof (intro conjI allI impI)
  note gc = get_cost_fst_accepted [OF acc d r, of "calls st"]
  {
    fix groups g a
    assume h: "first_groups response = Inr groups \<and> g \<in> set groups \<and>
            group_amount g = Inr (PStr a) \<and> float_of_string a = None"
    then obtain e where e: "build_costs response = Inl e"
      using build_costs_unparsable by blast
    then have "fst (get_cost (sdk ev) (clock ev) creds (calls st)) =
        Inl (HTTPException 400 (Str e))"
      using gc by simp
    then show "\<exists>e. fst (get_cost (sdk ev) (clock ev) creds (calls st)) =
                    Inl (HTTPException 400 (Str e))
                \<and> fst (metrics_middleware ev (post ''/cost'' (creds_payload creds)) st) =
                    Response \<lparr>status_code = 400, content_type = ''application/json'',
                              body = Detail (Str e)\<rparr>"
      by (auto simp: app_cost error_response_def)
  }
  {
    assume "py_getitem response (PStr ''ResultsByTime'') = Inr (PList [])"
    then have g: "fst (get_cost (sdk ev) (clock ev) creds (calls st)) =
        Inl (HTTPException 400 (Str IndexError))"
      using gc by (simp add: build_costs_no_bucket)
    then show "fst (get_cost (sdk ev) (clock ev) creds (calls st)) =
        Inl (HTTPException 400 (Str IndexError))" .
    from g show "fst (metrics_middleware ev (post ''/cost'' (creds_payload creds)) st) =
                Response \<lparr>status_code = 400, content_type = ''application/json'',
                          body = Detail (Str IndexError)\<rparr>"
      by (simp add: app_cost error_response_def)
  }
  {
    fix rsp
    assume h: "fst (metrics_middleware ev (post ''/cost'' (creds_payload creds)) st) = Response rsp
                 \<and> status_code rsp = 200"
    show "\<exists>groups costs.
                first_groups response = Inr groups
              \<and> fst (get_cost (sdk ev) (clock ev) creds (calls st)) = Inr (PDict costs)
              \<and> body rsp = Json (PDict costs)
              \<and> (\<forall>g\<in>set groups. \<exists>k. group_service g = Inr k \<and> has_entry costs k)"
    proof (cases "build_costs response")
      case (Inl e)
      with gc h show ?thesis by (auto simp: app_cost error_response_def)
    next
      case (Inr v)
      with gc have g: "fst (get_cost (sdk ev) (clock ev) creds (calls st)) = Inr v" by simp
      with h have "json_response v = rsp" "status_code rsp = 200"
        by (simp_all add: app_cost)
      then have b: "body rsp = Json v"
        by (auto simp: json_response_def split: if_splits)
      from build_costs_entries [OF Inr] g b show ?thesis by blast
    qed
  }
qed


text \<open>An amount that is no number, a response without buckets, and a good response.\<close>

lemma test_env_sdk: "sdk (test_env b t) = b"
  by (simp add: test_env_def)

lemma test_env_clock: "clock (test_env b t) = t"
  by (simp add: test_env_def)

lemma unparsable_amount: "float_of_string ''twelve'' = None"
  by code_simp

lemma good_cost_reply:
  "fst (metrics_middleware
          (test_env (billing_stub (cost_response
             [[cost_group ''EC2'' ''12.345'', cost_group ''S3'' ''0.001'']])) (Date 738960))
          (post ''/cost'' (creds_payload creds0)) fresh_state) =
     Response \<lparr>status_code = 200, content_type = ''application/json'',
               body = Json (PDict [(PStr ''EC2'', PFloat (rn (1235 / 100))),
                                   (PStr ''S3'', PFloat (Finite 0))])\<rparr>"
  by code_simp

theorem cost_all_or_nothing_witness:
  "(\<exists>e. fst (get_cost
             (billing_stub (cost_response
                [[cost_group ''EC2'' ''12.345'', cost_group ''S3'' ''twelve'']]))
             (Date 738960) creds0 []) = Inl (HTTPException 400 (Str e))
       \<and> fst (metrics_middleware
             (test_env (billing_stub (cost_response
                [[cost_group ''EC2'' ''12.345'', cost_group ''S3'' ''twelve'']])) (Date 738960))
             (post ''/cost'' (creds_payload creds0)) fresh_state) =
           Response \<lparr>status_code = 400, content_type = ''application/json'',
                     body = Detail (Str e)\<rparr>)
   \<and> fst (get_cost (billing_stub (cost_response [])) (Date 738960) creds0 []) =
       Inl (HTTPException 400 (Str IndexError))
   \<and> (\<exists>groups costs.
         first_groups (cost_response
            [[cost_group ''EC2'' ''12.345'', cost_group ''S3'' ''0.001'']]) = Inr groups
       \<and> fst (get_cost
             (billing_stub (cost_response
                [[cost_group ''EC2'' ''12.345'', cost_group ''S3'' ''0.001'']]))
             (Date 738960) creds0 []) = Inr (PDict costs)
       \<and> (\<forall>g\<in>set groups. \<exists>k. group_service g = Inr k \<and> has_entry costs k))"
proof -
  have acc: "sdk_accepts (sdk (test_env (billing_stub R) (Date 738960))) creds0" for R
    by (simp add: test_env_sdk billing_stub_accepts)
  have d: "date_sub_days (clock (test_env (billing_stub R) (Date 738960))) 30 = Inr (Date 738930)"
    for R by (simp add: test_env_clock march_15)
  have r: "get_cost_and_usage (sdk (test_env (billing_stub R) (Date 738960)))
      (Client (creds_session creds0) ''ce'')
      (cost_query (Date 738930) (clock (test_env (billing_stub R) (Date 738960)))) = Inr R" for R
    by (simp add: test_env_sdk billing_stub_response)
  note t = cost_all_or_nothing [OF acc d r, where st = fresh_state]
  have c0: "calls fresh_state = []" by (simp add: fresh_state_def)
  have bad: "\<exists>e. fst (get_cost
             (billing_stub (cost_response
                [[cost_group ''EC2'' ''12.345'', cost_group ''S3'' ''twelve'']]))
             (Date 738960) creds0 []) = Inl (HTTPException 400 (Str e))
       \<and> fst (metrics_middleware
             (test_env (billing_stub (cost_response
                [[cost_group ''EC2'' ''12.345'', cost_group ''S3'' ''twelve'']])) (Date 738960))
             (post ''/cost'' (creds_payload creds0)) fresh_state) =
           Response \<lparr>status_code = 400, content_type = ''application/json'',
                     body = Detail (Str e)\<rparr>"
    using t [of "cost_response [[cost_group ''EC2'' ''12.345'', cost_group ''S3'' ''twelve'']]",
        THEN conjunct1, rule_format,
        of "[cost_group ''EC2'' ''12.345'', cost_group ''S3'' ''twelve'']"
           "cost_group ''S3'' ''twelve''" "''twelve''"]
    by (simp add: first_groups_cost_response cost_group_amount unparsable_amount test_env_sdk
        test_env_clock c0)
  have empty: "fst (get_cost (billing_stub (cost_response [])) (Date 738960) creds0 []) =
       Inl (HTTPException 400 (Str IndexError))"
    using t [of "cost_response []", THEN conjunct2, THEN conjunct1]
    by (simp add: cost_response_def key_eq_def test_env_sdk test_env_clock c0)
  have good: "\<exists>groups costs.
         first_groups (cost_response
            [[cost_group ''EC2'' ''12.345'', cost_group ''S3'' ''0.001'']]) = Inr groups
       \<and> fst (get_cost
             (billing_stub (cost_response
                [[cost_group ''EC2'' ''12.345'', cost_group ''S3'' ''0.001'']]))
             (Date 738960) creds0 []) = Inr (PDict costs)
       \<and> (\<forall>g\<in>set groups. \<exists>k. group_service g = Inr k \<and> has_entry costs k)"
    using t [of "cost_response [[cost_group ''EC2'' ''12.345'', cost_group ''S3'' ''0.001'']]",
        THEN conjunct2, THEN conjunct2, rule_format, OF conjI, OF good_cost_reply]
    by (simp add: test_env_sdk test_env_clock c0) blast
  from bad empty good show ?thesis by blast
qed

text \<open>
  \<^verbatim>\<open>float\<close> accepts \<^verbatim>\<open>nan\<close>, \<^verbatim>\<open>inf\<close> and \<^verbatim>\<open>infinity\<close>: such an amount raises nothing in the
  handler, which returns the dictionary; the JSON encoding of the reply then fails.
\<close>

lemma nan_amount_reply:
  "fst (get_cost (billing_stub (cost_response [[cost_group ''EC2'' ''nan'']]))
          (Date 738960) creds0 []) = Inr (PDict [(PStr ''EC2'', PFloat NaN)])
   \<and> fst (metrics_middleware
          (test_env (billing_stub (cost_response [[cost_group ''EC2'' ''nan'']])) (Date 738960))
          (post ''/cost'' (creds_payload creds0)) fresh_state) =
       Response \<lparr>status_code = 500, content_type = ''text/plain; charset=utf-8'',
                 body = ServerError\<rparr>"
  by code_simp

text \<open>
  The separators U+001C to U+001F are no white space for \<^verbatim>\<open>float\<close>: an amount that starts
  or ends with one is rejected and the request answered with 400; a no-break space is
  stripped.
\<close>

lemma separators_not_stripped:
  "float_of_string [CHR 0x1C, CHR ''1''] = None
   \<and> float_of_string [CHR ''1'', CHR 0x1F] = None
   \<and> float_of_string [CHR 0xA0, CHR ''1''] = Some (Finite 1)"
  by code_simp

lemma separator_amount_reply:
  "fst (get_cost (billing_stub (cost_response [[cost_group ''X'' [CHR 0x1C, CHR ''1'']]]))
          (Date 738960) creds0 []) =
     Inl (HTTPException 400 (Str (ValueError (PStr [CHR 0x1C, CHR ''1'']))))"
  by code_simp

subsection \<open>The rounding to binary64 is to a nearest value\<close>

text \<open>
  The exponent chosen by \<open>rn_pos\<close> brackets its argument, so that the significand has
  at most 53 binary digits (exactly 53 above the subnormal range), and the result is
  the multiple of \<open>2\<^sup>e\<close> nearest to the argument, the even one of two equally near.
\<close>

lemma bitlen_bounds: "0 < n \<Longrightarrow> 2 ^ (bitlen n - 1) \<le> n \<and> n < 2 ^ bitlen n"
proof (induction n rule: bitlen.induct)
  case (1 n)
  show ?case
  proof (cases "n = 1")
    case True
    have "bitlen 1 = Suc (bitlen 0)" by (subst bitlen.simps) simp
    also have "bitlen 0 = 0" by (subst bitlen.simps) simp
    finally show ?thesis using True by simp
  next
    case False
    with "1.prems" have h: "0 < n div 2" by simp
    have ih: "2 ^ (bitlen (n div 2) - 1) \<le> n div 2 \<and> n div 2 < 2 ^ bitlen (n div 2)"
      using "1.IH" "1.prems" h by simp
    have pos: "0 < bitlen (n div 2)"
      using h by (subst bitlen.simps) simp
    have b: "bitlen n = Suc (bitlen (n div 2))"
      using "1.prems" by (subst bitlen.simps) simp
    have "2 ^ (bitlen n - 1) = 2 * (2::int) ^ (bitlen (n div 2) - 1)"
      using b pos by (cases "bitlen (n div 2)") simp_all
    moreover have "(2::int) ^ bitlen n = 2 * 2 ^ bitlen (n div 2)"
      using b by simp
    ultimately show ?thesis using ih by linarith
  qed
qed

lemma bitlen_pos: "0 < n \<Longrightarrow> 0 < bitlen n"
  by (subst bitlen.simps) simp

lemma pow2_Suc: "pow2 (k + 1) = 2 * pow2 k"
proof (cases "0 \<le> k")
  case True
  then show ?thesis by (simp add: pow2_def nat_add_distrib)
next
  case False
  then obtain j where j: "nat (- k) = Suc j" by (cases "nat (- k)") auto
  then have "nat (- (k + 1)) = j" by linarith
  with j False show ?thesis by (auto simp: pow2_def)
qed

lemma ilog2_bounds:
  assumes "0 < q"
  shows "pow2 (ilog2 q) \<le> q \<and> q < pow2 (ilog2 q + 1)"
proof (cases "1 \<le> q")
  case True
  define n where "n = \<lfloor>q\<rfloor>"
  have n: "0 < n" using True by (simp add: n_def)
  note b = bitlen_bounds [OF n]
  have k: "ilog2 q = int (bitlen n - 1)"
    using True bitlen_pos [OF n] by (simp add: ilog2_def n_def)
  have lo: "(2::rat) ^ (bitlen n - 1) \<le> q"
  proof -
    have "(of_int (2 ^ (bitlen n - 1)) :: rat) \<le> of_int n" using b by (simp only: of_int_le_iff)
    then have "(2::rat) ^ (bitlen n - 1) \<le> of_int n" by simp
    moreover have "of_int n \<le> q" by (simp add: n_def)
    ultimately show ?thesis by (rule order_trans)
  qed
  have hi: "q < (2::rat) ^ bitlen n"
  proof -
    have "n + 1 \<le> 2 ^ bitlen n" using b by simp
    then have "(of_int (n + 1) :: rat) \<le> of_int (2 ^ bitlen n)" by (simp only: of_int_le_iff)
    then have "(of_int (n + 1) :: rat) \<le> 2 ^ bitlen n" by simp
    moreover have "q < of_int (n + 1)" unfolding n_def by linarith
    ultimately show ?thesis by (rule less_le_trans [rotated])
  qed
  have e1: "pow2 (ilog2 q) = 2 ^ (bitlen n - 1)"
    using k by (simp add: pow2_def)
  have "ilog2 q + 1 = int (bitlen n)" using k bitlen_pos [OF n] by simp
  then have e2: "pow2 (ilog2 q + 1) = 2 ^ bitlen n"
    by (simp add: pow2_def)
  show ?thesis using lo hi e1 e2 by simp
next
  case False
  define c where "c = \<lceil>1 / q\<rceil>"
  have r: "1 < 1 / q" using False assms by simp
  then have c2: "2 \<le> c" unfolding c_def by linarith
  then have c1: "0 < c - 1" by simp
  note b = bitlen_bounds [OF c1]
  define j where "j = bitlen (c - 1)"
  have jpos: "0 < j" unfolding j_def by (rule bitlen_pos [OF c1])
  have k: "ilog2 q = - int j" using False by (simp add: ilog2_def c_def j_def)
  have up: "1 / q \<le> (2::rat) ^ j"
  proof -
    have "c \<le> 2 ^ j" using b by (simp add: j_def)
    then have "(of_int c :: rat) \<le> of_int (2 ^ j)" by (simp only: of_int_le_iff)
    then have "(of_int c :: rat) \<le> 2 ^ j" by simp
    moreover have "1 / q \<le> of_int c" unfolding c_def by linarith
    ultimately show ?thesis by (rule order_trans [rotated])
  qed
  have low: "(2::rat) ^ (j - 1) < 1 / q"
  proof -
    have "(of_int (2 ^ (j - 1)) :: rat) \<le> of_int (c - 1)" using b by (simp only: of_int_le_iff j_def)
    then have "(2::rat) ^ (j - 1) \<le> of_int (c - 1)" by simp
    moreover have "of_int (c - 1) < 1 / q" unfolding c_def by linarith
    ultimately show ?thesis by (rule le_less_trans)
  qed
  have p: "(0::rat) < 2 ^ j" "(0::rat) < 2 ^ (j - 1)" by simp_all
  have lo: "1 / 2 ^ j \<le> q"
    using up assms p by (simp add: field_simps)
  have hi: "q < 1 / 2 ^ (j - 1)"
    using low assms p by (simp add: field_simps)
  have e1: "pow2 (- int j) = 1 / 2 ^ j" using jpos by (simp add: pow2_def)
  have "nat (int j - 1) = j - 1" by simp
  then have e2: "pow2 (- int j + 1) = 1 / 2 ^ (j - 1)"
    using jpos by (auto simp: pow2_def)
  show ?thesis using lo hi k e1 e2 by simp
qed


lemma pow2_power_int: "pow2 k = power_int 2 k"
  by (simp add: pow2_def power_int_def inverse_eq_divide power_one_over)

lemma pow2_pos: "0 < pow2 k"
  by (simp add: pow2_def)

lemma pow2_add: "pow2 (a + b) = pow2 a * pow2 b"
  by (simp add: pow2_power_int power_int_add)

lemma pow2_mono: "a \<le> b \<Longrightarrow> pow2 a \<le> pow2 b"
  by (simp add: pow2_power_int power_int_increasing)

lemma round_half_even_le:
  assumes "x \<le> of_int n"
  shows "round_half_even x \<le> n"
proof -
  have "\<bar>of_int (round_half_even x) - x\<bar> \<le> 1 / 2"
    using round_half_even_nearest [of x] by (auto simp: nearest_even_def)
  then have "of_int (round_half_even x) < (of_int n :: rat) + 1" using assms by linarith
  then have "of_int (round_half_even x) < (of_int (n + 1) :: rat)" by simp
  then have "round_half_even x < n + 1" by (simp only: of_int_less_iff)
  then show ?thesis by simp
qed

lemma round_half_even_ge:
  assumes "of_int n \<le> x"
  shows "n \<le> round_half_even x"
proof -
  have "\<bar>of_int (round_half_even x) - x\<bar> \<le> 1 / 2"
    using round_half_even_nearest [of x] by (auto simp: nearest_even_def)
  then have "(of_int n :: rat) - 1 < of_int (round_half_even x)" using assms by linarith
  then have "(of_int (n - 1) :: rat) < of_int (round_half_even x)" by simp
  then have "n - 1 < round_half_even x" by (simp only: of_int_less_iff)
  then show ?thesis by simp
qed

lemma rn_pos_nearest:
  assumes q: "0 < q" and v: "rn_pos q = Finite v"
  shows "\<exists>m. v = of_int m * pow2 (max (ilog2 q - 52) (- 1074))
           \<and> nearest_even (q / pow2 (max (ilog2 q - 52) (- 1074))) m
           \<and> 0 \<le> m \<and> m \<le> 2 ^ 53
           \<and> (- 1074 \<le> ilog2 q - 52 \<longrightarrow> 2 ^ 52 \<le> m)"
proof -
  define e where "e = max (ilog2 q - 52) (- 1074)"
  define m where "m = round_half_even (q / pow2 e)"
  have vm: "v = of_int m * pow2 e"
    using v by (auto simp: rn_pos_def Let_def e_def m_def split: if_splits)
  have near: "nearest_even (q / pow2 e) m"
    unfolding m_def by (rule round_half_even_nearest)
  have "0 \<le> q / pow2 e" using q pow2_pos [of e] by simp
  then have m0: "0 \<le> m" unfolding m_def using round_half_even_ge [of 0] by simp
  have le: "ilog2 q - 52 \<le> e" by (simp add: e_def)
  have "q < pow2 (ilog2 q + 1)" using ilog2_bounds [OF q] by simp
  also have "ilog2 q + 1 = (ilog2 q - 52) + 53" by simp
  also have "pow2 ((ilog2 q - 52) + 53) = pow2 (ilog2 q - 52) * pow2 53" by (rule pow2_add)
  also have "\<dots> \<le> pow2 e * pow2 53"
    using pow2_mono [OF le] pow2_pos [of 53] by simp
  finally have "q / pow2 e < pow2 53"
    using pow2_pos [of e] by (simp add: field_simps)
  then have "q / pow2 e \<le> of_int (2 ^ 53)" by (simp add: pow2_def)
  then have m53: "m \<le> 2 ^ 53" unfolding m_def by (rule round_half_even_le)
  have m52: "2 ^ 52 \<le> m" if n: "- 1074 \<le> ilog2 q - 52"
  proof -
    from n have e: "e = ilog2 q - 52" by (simp add: e_def)
    have "pow2 e * pow2 52 = pow2 (ilog2 q)" using e pow2_add [of e 52] by simp
    also have "\<dots> \<le> q" using ilog2_bounds [OF q] by simp
    finally have "pow2 52 \<le> q / pow2 e"
      using pow2_pos [of e] by (simp add: field_simps)
    then have "of_int (2 ^ 52) \<le> q / pow2 e" by (simp add: pow2_def)
    then show ?thesis unfolding m_def by (rule round_half_even_ge)
  qed
  show ?thesis
    using vm near m0 m53 m52 unfolding e_def by blast
qed


text \<open>The test for overflow in \<open>rn_pos\<close> is the comparison of the rounded value with \<open>2\<^sup>1\<^sup>0\<^sup>2\<^sup>4\<close>.\<close>

lemma rn_pos_overflow:
  assumes q: "0 < q"
  shows "rn_pos q = PosInf \<longleftrightarrow>
     pow2 1024 \<le> of_int (round_half_even (q / pow2 (max (ilog2 q - 52) (- 1074))))
                   * pow2 (max (ilog2 q - 52) (- 1074))"
proof -
  define e where "e = max (ilog2 q - 52) (- 1074)"
  define m where "m = round_half_even (q / pow2 e)"
  have m53: "m \<le> 2 ^ 53"
  proof -
    have le: "ilog2 q - 52 \<le> e" by (simp add: e_def)
    have "q < pow2 (ilog2 q + 1)" using ilog2_bounds [OF q] by simp
    also have "ilog2 q + 1 = (ilog2 q - 52) + 53" by simp
    also have "pow2 ((ilog2 q - 52) + 53) = pow2 (ilog2 q - 52) * pow2 53" by (rule pow2_add)
    also have "\<dots> \<le> pow2 e * pow2 53"
      using pow2_mono [OF le] pow2_pos [of 53] by simp
    finally have "q / pow2 e < pow2 53"
      using pow2_pos [of e] by (simp add: field_simps)
    then have "q / pow2 e \<le> of_int (2 ^ 53)" by (simp add: pow2_def)
    then show ?thesis unfolding m_def by (rule round_half_even_le)
  qed
  have m0: "0 \<le> m"
  proof -
    have "0 \<le> q / pow2 e" using q pow2_pos [of e] by simp
    then show ?thesis unfolding m_def using round_half_even_ge [of 0] by simp
  qed
  have split: "pow2 1024 = pow2 (1024 - e) * pow2 e"
    using pow2_add [of "1024 - e" e] by simp
  have cmp: "pow2 1024 \<le> of_int m * pow2 e \<longleftrightarrow> pow2 (1024 - e) \<le> of_int m"
    using pow2_pos [of e] by (simp add: split)
  consider "971 < e" | "e = 971" | "e < 971" by linarith
  then have "(971 < e \<or> (e = 971 \<and> 2 ^ 53 \<le> m)) \<longleftrightarrow> pow2 (1024 - e) \<le> of_int m"
  proof cases
    case 1
    then have e: "e = ilog2 q - 52" by (simp add: e_def)
    have "pow2 e * pow2 52 = pow2 (ilog2 q)" using e pow2_add [of e 52] by simp
    also have "\<dots> \<le> q" using ilog2_bounds [OF q] by simp
    finally have "pow2 52 \<le> q / pow2 e"
      using pow2_pos [of e] by (simp add: field_simps)
    then have "of_int (2 ^ 52) \<le> q / pow2 e" by (simp add: pow2_def)
    then have "2 ^ 52 \<le> m" unfolding m_def by (rule round_half_even_ge)
    then have "(of_int (2 ^ 52) :: rat) \<le> of_int m" by (simp only: of_int_le_iff)
    then have a: "pow2 52 \<le> of_int m" by (simp add: pow2_def)
    have "pow2 (1024 - e) \<le> pow2 52" using 1 by (intro pow2_mono) simp
    with a have "pow2 (1024 - e) \<le> of_int m" by linarith
    with 1 show ?thesis by simp
  next
    case 2
    have "pow2 53 \<le> of_int m \<longleftrightarrow> (of_int (2 ^ 53) :: rat) \<le> of_int m"
      by (simp add: pow2_def)
    also have "\<dots> \<longleftrightarrow> 2 ^ 53 \<le> m" by (simp only: of_int_le_iff)
    finally show ?thesis using 2 by simp
  next
    case 3
    have "(of_int m :: rat) \<le> of_int (2 ^ 53)" using m53 by (simp only: of_int_le_iff)
    then have "(of_int m :: rat) \<le> pow2 53" by (simp add: pow2_def)
    moreover have "pow2 53 < pow2 (1024 - e)"
    proof -
      have "pow2 54 \<le> pow2 (1024 - e)" using 3 by (intro pow2_mono) simp
      moreover have "pow2 53 < pow2 54" by (simp add: pow2_def)
      ultimately show ?thesis by linarith
    qed
    ultimately have "\<not> pow2 (1024 - e) \<le> of_int m" by linarith
    with 3 show ?thesis by simp
  qed
  then show ?thesis
    unfolding cmp [symmetric]
    by (auto simp: rn_pos_def Let_def e_def [symmetric] m_def [symmetric])
qed

text \<open>
  Beyond the range of binary64: a positive value of at least \<open>2\<^sup>1\<^sup>0\<^sup>2\<^sup>4\<close> rounds to
  infinity and one below \<open>2\<^sup>-\<^sup>1\<^sup>0\<^sup>7\<^sup>5\<close> rounds to zero, so that \<^verbatim>\<open>float("1e400")\<close> is
  \<^verbatim>\<open>inf\<close> and \<^verbatim>\<open>float("-1e-400")\<close> is \<^verbatim>\<open>-0.0\<close>.
\<close>

lemma rn_pos_huge:
  assumes "pow2 1024 \<le> q"
  shows "rn_pos q = PosInf"
proof -
  have q: "0 < q" using assms pow2_pos [of 1024] by linarith
  have "pow2 1024 < pow2 (ilog2 q + 1)" using ilog2_bounds [OF q] assms by linarith
  then have "1024 < ilog2 q + 1"
    using pow2_mono [of "ilog2 q + 1" 1024] by (cases "1024 < ilog2 q + 1") auto
  then have "971 < ilog2 q - 52" by simp
  then have e: "max (ilog2 q - 52) (- 1074) = ilog2 q - 52" by simp
  show ?thesis
    unfolding rn_pos_def Let_def e using \<open>971 < ilog2 q - 52\<close> by (simp only: if_True)
qed

lemma rn_pos_tiny:
  assumes q: "0 < q" and small: "q < pow2 (- 1075)"
  shows "rn_pos q = Finite 0"
proof -
  have "pow2 (ilog2 q) < pow2 (- 1075)" using ilog2_bounds [OF q] small by linarith
  then have "ilog2 q < - 1075"
    using pow2_mono [of "- 1075" "ilog2 q"] by (cases "ilog2 q < - 1075") auto
  then have e: "max (ilog2 q - 52) (- 1074) = - 1074" by simp
  have "pow2 (- 1075) = pow2 (- 1) * pow2 (- 1074)" using pow2_add [of "- 1" "- 1074"] by simp
  also have "pow2 (- 1) = 1 / 2" by (simp add: pow2_def)
  finally have half: "pow2 (- 1075) = pow2 (- 1074) / 2" by simp
  define x where "x = q / pow2 (- 1074)"
  have x0: "0 < x" unfolding x_def using q pow2_pos [of "- 1074"] by simp
  have x1: "x < 1 / 2"
    unfolding x_def using small half pow2_pos [of "- 1074"] by (simp add: field_simps)
  have fl: "\<lfloor>x\<rfloor> = 0" using x0 x1 by (simp add: floor_eq_iff)
  have "round_half_even x = 0"
    using x1 by (simp add: round_half_even_def Let_def fl)
  then show ?thesis
    using e by (simp add: rn_pos_def Let_def x_def)
qed

lemma parse_1e400: "parse_decimal ''1e400'' = Some (1, 400)"
  by code_simp

lemma parse_1e_400: "parse_decimal ''1e-400'' = Some (1, - 400)"
  by code_simp

lemma float_overflows: "float_of_string ''1e400'' = Some PosInf"
proof -
  have s: "strip ''1e400'' = ''1e400''" by code_simp
  have u: "underscores_ok (CHR 0x00) ''1e400''" by code_simp
  have l: "map lower ''1e400'' = ''1e400''" by code_simp
  have "pow2 1024 \<le> pow10 400" by (simp add: pow2_def pow10_def)
  then have r: "rn (of_int 1 * pow10 400) = PosInf"
    using pow2_pos [of 1024] by (simp add: rn_def rn_pos_huge)
  show ?thesis
    by (simp add: float_of_string_def s u parse_unsigned_def l parse_1e400 r Let_def
        del: of_int_1 mult_1)
qed

lemma float_underflows: "float_of_string ''-1e-400'' = Some NegZero"
proof -
  have s: "strip ''-1e-400'' = ''-1e-400''" by code_simp
  have u: "underscores_ok (CHR 0x00) ''-1e-400''" by code_simp
  have l: "map lower ''1e-400'' = ''1e-400''" by code_simp
  have p: "0 < pow10 (- 400)" by (simp add: pow10_def)
  have "pow10 (- 400) < pow2 (- 1075)" by (simp add: pow2_def pow10_def field_simps)
  then have r: "rn (of_int 1 * pow10 (- 400)) = Finite 0"
    using p by (simp add: rn_def rn_pos_tiny)
  show ?thesis
    by (simp add: float_of_string_def s u parse_unsigned_def l parse_1e_400 r Let_def fneg_def
        del: of_int_1 mult_1)
qed

subsection \<open>The request counter\<close>

lemma run_handler_request_count:
  "request_count (snd (run_handler h st)) = request_count st"
  by (cases "h (calls st)") (simp add: run_handler_def split: sum.splits)

lemma dispatch_request_count:
  "request_count (snd (dispatch ev req st)) = request_count st"
  by (simp add: dispatch_def with_creds_def run_handler_request_count split: sum.splits)

lemma middleware_request_count:
  "request_count (snd (metrics_middleware ev req st)) = inc (request_count st) (url_path req)"
proof -
  define st1 where "st1 = st\<lparr>request_count := inc (request_count st) (url_path req)\<rparr>"
  obtain out st2 where d: "dispatch ev req st1 = (out, st2)" by (cases "dispatch ev req st1")
  have "request_count st2 = request_count st1"
    using dispatch_request_count [of ev req st1] d by simp
  then show ?thesis
    using d by (simp add: metrics_middleware_def Let_def st1_def)
qed

text \<open>
  Requests handled one after the other increase the counter of a path by the
  number of requests to that path: \<open>K\<close> requests to \<^verbatim>\<open>/resources\<close> increase the counter
  labelled \<^verbatim>\<open>/resources\<close> by exactly \<open>K\<close>.
\<close>

theorem sequential_requests_counted:
  "request_count (serve ev reqs st) p =
     request_count st p + length (filter (\<lambda>req. url_path req = p) reqs)"
proof (induction reqs arbitrary: st)
  case Nil
  show ?case by (simp add: serve_def)
next
  case (Cons req reqs)
  have "serve ev (req # reqs) st = serve ev reqs (snd (metrics_middleware ev req st))"
    by (simp add: serve_def)
  then show ?case
    using Cons.IH [of "snd (metrics_middleware ev req st)"]
    by (simp add: middleware_request_count inc_def)
qed

end
